theory Spec2Isabelle
  imports Complex_Main "HOL-Library.Word" "HOL-Library.Log_Nat"
begin

section \<open>Images and the OpenCV / NumPy primitives the pipeline calls\<close>

text \<open>
  The program is \<^verbatim>\<open>Tubes.py\<close>: a five-stage image pipeline (contrast stretching on the
  luminance channel, HSV thresholding, binary morphology, drawing of detections with a
  quality verdict) driven by a Qt window that keeps the stage outputs in instance fields.

  An image is a NumPy array of 8-bit samples: two-dimensional (grayscale, masks) or with a
  third axis of three samples (BGR, YCrCb, HSV). Rows are lists; \<open>None\<close> in the Python is
  \<open>None\<close> of an option type.
\<close>

type_synonym uint8 = "8 word"
type_synonym pixel = "uint8 \<times> uint8 \<times> uint8"
type_synonym gray = "uint8 list list"
type_synonym color = "pixel list list"

datatype image = Gray gray | Color color

text \<open>Exceptions of the libraries, as values.\<close>

datatype py_error = CvError | ValueError | ZeroDivide

text \<open>\<^verbatim>\<open>img.shape[:2]\<close>: height and width.\<close>

definition grid_h :: "'a list list \<Rightarrow> nat" where
  "grid_h rows = length rows"

definition grid_w :: "'a list list \<Rightarrow> nat" where
  "grid_w rows = (case rows of [] \<Rightarrow> 0 | r # _ \<Rightarrow> length r)"

text \<open>An image that a file decodes to has at least one pixel.\<close>

definition nonempty_grid :: "'a list list \<Rightarrow> bool" where
  "nonempty_grid rows = (concat rows \<noteq> [])"

fun img_h :: "image \<Rightarrow> nat" where
  "img_h (Gray g) = grid_h g"
| "img_h (Color c) = grid_h c"

fun img_w :: "image \<Rightarrow> nat" where
  "img_w (Gray g) = grid_w g"
| "img_w (Color c) = grid_w c"

text \<open>
  \<^verbatim>\<open>cv2.cvtColor\<close> converts pixel by pixel and raises \<^verbatim>\<open>cv2.error\<close> on an array without
  pixels. The per-pixel colour formulas belong to OpenCV; they are parameters of the model.
\<close>

record colorspaces =
  BGR2YCrCb :: "pixel \<Rightarrow> pixel"
  YCrCb2BGR :: "pixel \<Rightarrow> pixel"
  BGR2HSV :: "pixel \<Rightarrow> pixel"

definition cvtColor :: "('a \<Rightarrow> 'b) \<Rightarrow> 'a list list \<Rightarrow> py_error + 'b list list" where
  "cvtColor f src = (if nonempty_grid src then Inr (map (map f) src) else Inl CvError)"

definition GRAY2BGR :: "uint8 \<Rightarrow> pixel" where
  "GRAY2BGR v = (v, v, v)"

text \<open>\<^verbatim>\<open>len(img.shape) < 3\<close> selects the grayscale conversion, otherwise \<^verbatim>\<open>img.copy()\<close>.\<close>

definition to_bgr :: "image \<Rightarrow> py_error + color" where
  "to_bgr img = (case img of Gray g \<Rightarrow> cvtColor GRAY2BGR g | Color c \<Rightarrow> Inr c)"

text \<open>\<^verbatim>\<open>np.min\<close> and \<^verbatim>\<open>np.max\<close> over a whole channel; both raise on a zero-size array.\<close>

definition np_min :: "gray \<Rightarrow> py_error + uint8" where
  "np_min y = (case concat y of [] \<Rightarrow> Inl ValueError | v # vs \<Rightarrow> Inr (fold min vs v))"

definition np_max :: "gray \<Rightarrow> py_error + uint8" where
  "np_max y = (case concat y of [] \<Rightarrow> Inl ValueError | v # vs \<Rightarrow> Inr (fold max vs v))"

section \<open>Contrast stretching: \<^verbatim>\<open>enhance_contrast_stretching\<close>\<close>

text \<open>
  NumPy computes the quotient and the product in float64. An operation of IEEE binary64
  returns the exact result rounded to the nearest number with a 53-bit significand, ties
  to the even significand. \<open>binade x\<close> is the exponent \<open>e\<close> with \<open>2^e \<le> x < 2^(e+1)\<close>, found
  from the bit lengths of numerator and denominator; \<open>fl64\<close> rounds to the multiples of
  \<open>2^(e-52)\<close>. Overflow and subnormal numbers are left out: every value of this program
  lies between 0 and 256. An 8-bit integer converts to float64 without rounding.
\<close>

definition round_half_even :: "rat \<Rightarrow> int" where
  "round_half_even z =
     (let f = \<lfloor>z\<rfloor>; r = z - of_int f
      in if r < 1 / 2 then f else if 1 / 2 < r then f + 1 else if even f then f else f + 1)"

definition binade :: "rat \<Rightarrow> int" where
  "binade x =
     (case quotient_of x of (p, q) \<Rightarrow>
        let e = bitlen p - bitlen q in if 2 powi e \<le> x then e else e - 1)"

definition fl64 :: "rat \<Rightarrow> rat" where
  "fl64 x =
     (if x = 0 then 0
      else let u = 2 powi (binade \<bar>x\<bar> - 52)
           in sgn x * of_int (round_half_even (\<bar>x\<bar> / u)) * u)"

text \<open>
  \<^verbatim>\<open>.astype(np.uint8)\<close> on a float array is the C conversion: the fraction is dropped
  (truncation towards zero); the result is taken modulo 256.
\<close>

definition astype_uint8 :: "rat \<Rightarrow> uint8" where
  "astype_uint8 x = word_of_int (if 0 \<le> x then \<lfloor>x\<rfloor> else \<lceil>x\<rceil>)"

text \<open>
  One sample of \<^verbatim>\<open>((y - min_y) / (max_y - min_y) * 255).astype(np.uint8)\<close>. Both
  differences are \<^verbatim>\<open>uint8\<close> (they wrap); the division and the multiplication are float64
  operations, each rounded.
\<close>

definition stretch_sample :: "uint8 \<Rightarrow> uint8 \<Rightarrow> uint8 \<Rightarrow> uint8" where
  "stretch_sample min_y max_y v =
     astype_uint8
       (fl64 (fl64 (rat_of_nat (unat (v - min_y)) / rat_of_nat (unat (max_y - min_y))) * 255))"

text \<open>
  The array expression as a whole. NumPy does not raise on a zero divisor (it warns and
  yields nan or inf); the model makes that case a failure, so that it cannot pass unseen.
\<close>

definition np_stretch :: "uint8 \<Rightarrow> uint8 \<Rightarrow> gray \<Rightarrow> py_error + gray" where
  "np_stretch min_y max_y y =
     (if max_y - min_y = 0 then Inl ZeroDivide
      else Inr (map (map (stretch_sample min_y max_y)) y))"

text \<open>The branch on \<^verbatim>\<open>max_y - min_y == 0\<close>, giving \<^verbatim>\<open>y_stretched\<close> from \<^verbatim>\<open>y\<close>.\<close>

definition y_stretched :: "gray \<Rightarrow> py_error + gray" where
  "y_stretched y =
     (case np_min y of Inl e \<Rightarrow> Inl e | Inr min_y \<Rightarrow>
       (case np_max y of Inl e \<Rightarrow> Inl e | Inr max_y \<Rightarrow>
          if max_y - min_y = 0 then Inr y else np_stretch min_y max_y y))"

text \<open>\<^verbatim>\<open>ycrcb[:, :, 0]\<close> read, and \<^verbatim>\<open>ycrcb[:, :, 0] = ...\<close> written.\<close>

definition luminance :: "color \<Rightarrow> gray" where
  "luminance ycrcb = map (map fst) ycrcb"

definition set_luminance :: "color \<Rightarrow> gray \<Rightarrow> color" where
  "set_luminance ycrcb ys = map2 (map2 (\<lambda>(y, c) y'. (y', c))) ycrcb ys"

text \<open>The YCrCb buffer after the stretched channel has been written back.\<close>

definition stretch_ycrcb :: "color \<Rightarrow> py_error + color" where
  "stretch_ycrcb ycrcb =
     (case y_stretched (luminance ycrcb) of Inl e \<Rightarrow> Inl e
      | Inr ys \<Rightarrow> Inr (set_luminance ycrcb ys))"

definition enhance_contrast_stretching ::
    "colorspaces \<Rightarrow> image option \<Rightarrow> py_error + image option" where
  "enhance_contrast_stretching cv img =
     (case img of None \<Rightarrow> Inr None
      | Some im \<Rightarrow>
         (case to_bgr im of Inl e \<Rightarrow> Inl e | Inr img_bgr \<Rightarrow>
         (case cvtColor (BGR2YCrCb cv) img_bgr of Inl e \<Rightarrow> Inl e | Inr ycrcb \<Rightarrow>
         (case stretch_ycrcb ycrcb of Inl e \<Rightarrow> Inl e | Inr ycrcb' \<Rightarrow>
         (case cvtColor (YCrCb2BGR cv) ycrcb' of Inl e \<Rightarrow> Inl e
          | Inr enhanced \<Rightarrow> Inr (Some (Color enhanced)))))))"

text \<open>
  The formula of the specification, kept apart from the code's: rounding to the nearest
  integer, then clamping to the 8-bit range.
\<close>

definition spec_stretch_sample :: "uint8 \<Rightarrow> uint8 \<Rightarrow> uint8 \<Rightarrow> int" where
  "spec_stretch_sample min_y max_y v =
     max 0 (min 255 (round (rat_of_int (uint v - uint min_y) * 255
                              / rat_of_int (uint max_y - uint min_y))))"

text \<open>What the code computes for a sample, in integer arithmetic: the quotient rounded down.\<close>

definition floor_stretch :: "nat \<Rightarrow> nat \<Rightarrow> nat \<Rightarrow> nat" where
  "floor_stretch mn mx v = (v - mn) * 255 div (mx - mn)"

definition floor_stretched :: "uint8 \<Rightarrow> uint8 \<Rightarrow> gray \<Rightarrow> gray" where
  "floor_stretched min_y max_y y =
     map (map (\<lambda>v. word_of_nat (floor_stretch (unat min_y) (unat max_y) (unat v)))) y"

section \<open>Properties of contrast stretching\<close>

lemma set_luminance_row: "map2 (\<lambda>(y, c) y'. (y', c)) r (map fst r) = r"
  by (induction r) auto

lemma set_luminance_same: "set_luminance ycrcb (luminance ycrcb) = ycrcb"
  unfolding set_luminance_def luminance_def
  by (induction ycrcb) (auto simp: set_luminance_row)

lemma rhe_error: "\<bar>of_int (round_half_even z) - z\<bar> \<le> 1 / 2"
proof -
  have "of_int \<lfloor>z\<rfloor> \<le> z" "z < of_int \<lfloor>z\<rfloor> + 1" by linarith+
  then show ?thesis
    unfolding round_half_even_def Let_def by (auto simp: abs_le_iff)
qed

lemma rhe_ge: "of_int n - 1 / 2 < z \<Longrightarrow> n \<le> round_half_even z"
proof -
  assume a: "of_int n - 1 / 2 < z"
  have "\<bar>of_int (round_half_even z) - z\<bar> \<le> 1 / 2" by (rule rhe_error)
  then have "z - 1 / 2 \<le> of_int (round_half_even z)" by linarith
  with a have "(of_int n :: rat) - 1 < of_int (round_half_even z)" by linarith
  then have "(of_int (n - 1) :: rat) < of_int (round_half_even z)" by simp
  then have "n - 1 < round_half_even z" by (simp only: of_int_less_iff)
  then show ?thesis by simp
qed

lemma two_powi_pos: "0 < (2::rat) powi e"
  by simp

lemma two_powi_mono: "a \<le> b \<Longrightarrow> (2::rat) powi a \<le> 2 powi b"
  by (rule power_int_increasing) simp_all

lemma two_powi_strict: "a < b \<Longrightarrow> (2::rat) powi a < 2 powi b"
  by (rule power_int_strict_increasing) simp_all

lemma two_powi_less_imp: "(2::rat) powi a < 2 powi b \<Longrightarrow> a < b"
  using two_powi_mono [of b a] by (cases "a < b") auto

lemma two_powi_add: "(2::rat) powi (a + b) = 2 powi a * 2 powi b"
  by (rule power_int_add) simp

lemma two_powi_diff: "(2::rat) powi (a - b) = 2 powi a / 2 powi b"
  by (rule power_int_diff) simp

lemma bitlen_powi:
  assumes "0 < p"
  shows "(2::rat) powi (bitlen p - 1) \<le> of_int p" and "of_int p < (2::rat) powi (bitlen p)"
proof -
  from bitlen_bounds [OF assms]
  have lo: "2 ^ nat (bitlen p - 1) \<le> p" and hi: "p < 2 ^ nat (bitlen p)" by simp_all
  have b1: "1 \<le> bitlen p" using assms by (simp add: bitlen_alt_def)
  have "(2::rat) powi (bitlen p - 1) = 2 ^ nat (bitlen p - 1)"
    using b1 by (simp add: power_int_def)
  also have "\<dots> = of_int (2 ^ nat (bitlen p - 1))" by simp
  also have "\<dots> \<le> of_int p" using lo by (simp only: of_int_le_iff)
  finally show "(2::rat) powi (bitlen p - 1) \<le> of_int p" .
  have "(of_int p :: rat) < of_int (2 ^ nat (bitlen p))" using hi by (simp only: of_int_less_iff)
  also have "\<dots> = 2 ^ nat (bitlen p)" by simp
  also have "\<dots> = 2 powi (bitlen p)" using b1 by (simp add: power_int_def)
  finally show "of_int p < (2::rat) powi (bitlen p)" .
qed

lemma binade_bounds:
  assumes "0 < x"
  shows "2 powi (binade x) \<le> x" and "x < 2 powi (binade x + 1)"
proof -
  obtain p q where pq: "quotient_of x = (p, q)" by (cases "quotient_of x")
  then have q: "0 < q" by (rule quotient_of_denom_pos)
  from pq have x: "x = of_int p / of_int q" by (rule quotient_of_div)
  with assms q have p: "0 < p" by (simp add: zero_less_divide_iff)
  let ?e = "bitlen p - bitlen q"
  have qr: "(0::rat) < of_int q" using q by simp
  have "2 powi (?e - 1) = (2::rat) powi (bitlen p - 1) / 2 powi (bitlen q)"
    using two_powi_diff [of "bitlen p - 1" "bitlen q"] by (simp add: algebra_simps)
  also have "\<dots> \<le> of_int p / 2 powi (bitlen q)"
    using bitlen_powi(1) [OF p] by (simp add: divide_right_mono)
  also have "\<dots> \<le> of_int p / of_int q"
    using bitlen_powi(2) [OF q] p qr by (intro divide_left_mono) simp_all
  finally have lo: "2 powi (?e - 1) \<le> x" using x by simp
  have "x = of_int p / of_int q" by (rule x)
  also have "\<dots> < 2 powi (bitlen p) / of_int q"
    using bitlen_powi(2) [OF p] qr by (simp add: divide_strict_right_mono)
  also have "\<dots> \<le> 2 powi (bitlen p) / 2 powi (bitlen q - 1)"
    using bitlen_powi(1) [OF q] qr by (intro divide_left_mono) simp_all
  also have "\<dots> = 2 powi (?e + 1)"
    using two_powi_diff [of "bitlen p" "bitlen q - 1"] by (simp add: algebra_simps)
  finally have hi: "x < 2 powi (?e + 1)" .
  show "2 powi (binade x) \<le> x"
    using lo by (simp add: binade_def pq Let_def)
  show "x < 2 powi (binade x + 1)"
    using hi by (auto simp: binade_def pq Let_def not_le)
qed

lemma binade_less: "0 < x \<Longrightarrow> x < 2 powi n \<Longrightarrow> binade x < n"
proof -
  assume "0 < x" "x < 2 powi n"
  with binade_bounds(1) [of x] have "(2::rat) powi (binade x) < 2 powi n" by simp
  then show ?thesis by (rule two_powi_less_imp)
qed

lemma binade_ge: "0 < x \<Longrightarrow> 2 powi n \<le> x \<Longrightarrow> n \<le> binade x"
proof -
  assume "0 < x" "2 powi n \<le> x"
  with binade_bounds(2) [of x] have "(2::rat) powi n < 2 powi (binade x + 1)" by simp
  then have "n < binade x + 1" by (rule two_powi_less_imp)
  then show ?thesis by simp
qed

lemma fl64_pos:
  "0 < x \<Longrightarrow> fl64 x = of_int (round_half_even (x / 2 powi (binade x - 52))) * 2 powi (binade x - 52)"
  by (simp add: fl64_def Let_def)

lemma fl64_error:
  assumes "0 < x"
  shows "\<bar>fl64 x - x\<bar> \<le> 2 powi (binade x - 53)"
proof -
  let ?u = "(2::rat) powi (binade x - 52)"
  have u: "0 < ?u" by simp
  have "fl64 x - x = (of_int (round_half_even (x / ?u)) - x / ?u) * ?u"
    using assms by (simp add: fl64_pos algebra_simps)
  then have "\<bar>fl64 x - x\<bar> = \<bar>of_int (round_half_even (x / ?u)) - x / ?u\<bar> * ?u"
    using u by (simp add: abs_mult)
  also have "\<dots> \<le> 1 / 2 * ?u"
    using rhe_error [of "x / ?u"] u by (intro mult_right_mono) simp_all
  also have "\<dots> = 2 powi (binade x - 53)"
    using two_powi_diff [of "binade x - 52" 1] by simp
  finally show ?thesis .
qed

lemma fl64_ge_int:
  assumes x: "0 < x" and e: "binade x \<le> 52"
    and k: "of_int k - 2 powi (binade x - 53) < x"
  shows "of_int k \<le> fl64 x"
proof -
  let ?u = "(2::rat) powi (binade x - 52)"
  let ?n = "k * 2 ^ nat (52 - binade x)"
  have u: "0 < ?u" by simp
  have inv: "1 / ?u = 2 ^ nat (52 - binade x)"
    using e two_powi_diff [of 0 "binade x - 52"] by (simp add: power_int_def)
  have "of_int k / ?u = of_int k * (1 / ?u)" by simp
  also have "\<dots> = of_int k * 2 ^ nat (52 - binade x)" by (simp only: inv)
  also have "\<dots> = of_int ?n" by simp
  finally have n: "(of_int ?n :: rat) = of_int k / ?u" by simp
  have half: "2 powi (binade x - 53) / ?u = 1 / 2"
    using two_powi_diff [of "binade x - 53" "binade x - 52"] by simp
  have "(of_int k - 2 powi (binade x - 53)) / ?u < x / ?u"
    using k u by (rule divide_strict_right_mono)
  then have "of_int ?n - 1 / 2 < x / ?u"
    by (simp only: diff_divide_distrib n half)
  then have "?n \<le> round_half_even (x / ?u)" by (rule rhe_ge)
  then have "(of_int ?n :: rat) \<le> of_int (round_half_even (x / ?u))"
    by (simp only: of_int_le_iff)
  then have "of_int ?n * ?u \<le> of_int (round_half_even (x / ?u)) * ?u"
    using u by (intro mult_right_mono) simp_all
  moreover have "of_int ?n * ?u = of_int k" using n u by simp
  ultimately show ?thesis using x by (simp only: fl64_pos)
qed

lemma powi_m54: "(2::rat) powi (- 54) = 1 / 2 ^ 54"
  using two_powi_diff [of 0 54] by simp

lemma powi_m46: "(2::rat) powi (- 46) = 1 / 2 ^ 46"
  using two_powi_diff [of 0 46] by simp

lemma powi_m8: "(2::rat) powi (- 8) = 1 / 256"
  using two_powi_diff [of 0 8] by simp

lemma powi_8: "(2::rat) powi 8 = 256"
  by (simp add: power_int_def)

lemma fl64_one: "fl64 1 = 1" and fl64_255: "fl64 255 = 255"
  by code_simp+

lemma pow2_table:
  "k \<in> {1, 2, 4, 8, 16, 32, 64, 128} \<Longrightarrow> fl64 (fl64 (rat_of_int k / 255) * 255) = rat_of_int k"
  by (elim insertE emptyE; hypsubst; code_simp)

lemma pow2_cases: "m < 8 \<Longrightarrow> (2::int) ^ m \<in> {1, 2, 4, 8, 16, 32, 64, 128}"
proof -
  assume "m < 8"
  then consider "m = 0" | "m = 1" | "m = 2" | "m = 3" | "m = 4" | "m = 5" | "m = 6" | "m = 7"
    by linarith
  then show ?thesis by cases simp_all
qed

lemma stretch_float_between:
  assumes a0: "0 < a" and ad: "a < d" and d255: "d \<le> (255::nat)"
  shows "rat_of_nat (a * 255 div d) \<le> fl64 (fl64 (rat_of_nat a / rat_of_nat d) * 255)
       \<and> fl64 (fl64 (rat_of_nat a / rat_of_nat d) * 255) < rat_of_nat (a * 255 div d) + 1"
proof -
  define q where "q = rat_of_nat a / rat_of_nat d"
  define x where "x = fl64 q"
  define z where "z = x * 255"
  define y where "y = fl64 z"
  define k where "k = a * 255 div d"
  define r where "r = a * 255 mod d"
  define c54 :: rat where "c54 = 1 / 2 ^ 54"
  define c46 :: rat where "c46 = 1 / 2 ^ 46"
  define u where "u = (2::rat) powi (binade q - 53)"
  have u0: "0 < u" by (simp add: u_def)
  have n1: "255 * c54 < 1 / 255" by (simp add: c54_def)
  have n3: "255 * c54 + c46 < 1 / 255" by (simp add: c54_def c46_def)
  have d0: "0 < d" using a0 ad by simp
  have dr: "(0::rat) < rat_of_nat d" using d0 by simp
  \<comment> \<open>the quotient lies in [1/255, 254/255]\<close>
  have "rat_of_nat d \<le> rat_of_nat a * 255"
  proof -
    have "d \<le> a * 255" using a0 d255 by simp
    then have "rat_of_nat d \<le> rat_of_nat (a * 255)" by (simp only: of_nat_le_iff)
    then show ?thesis by simp
  qed
  then have q_lo: "1 / 255 \<le> q"
    using dr by (simp add: q_def pos_le_divide_eq)
  have "rat_of_nat a * 255 \<le> 254 * rat_of_nat d"
  proof -
    have "a * 255 \<le> 254 * d" using ad d255 by simp
    then have "rat_of_nat (a * 255) \<le> rat_of_nat (254 * d)" by (simp only: of_nat_le_iff)
    then show ?thesis by simp
  qed
  then have q_hi: "q \<le> 254 / 255"
    using dr by (simp add: q_def pos_divide_le_eq)
  have q0: "0 < q" using q_lo by simp
  \<comment> \<open>its binade\<close>
  have bq_hi: "binade q < 0"
    using q0 q_hi by (intro binade_less) simp_all
  have bq_lo: "- 8 \<le> binade q"
    using q0 q_lo by (intro binade_ge) (simp_all add: powi_m8)
  \<comment> \<open>the rounded quotient\<close>
  have ex: "\<bar>x - q\<bar> \<le> 2 powi (binade q - 53)"
    unfolding x_def using q0 by (rule fl64_error)
  have "(2::rat) powi (binade q - 53) \<le> 2 powi (- 54)"
    using bq_hi by (intro two_powi_mono) simp
  with ex have ex': "\<bar>x - q\<bar> \<le> c54" by (simp add: powi_m54 c54_def)
  have x0: "0 < x" using ex' q_lo n1 by linarith
  \<comment> \<open>the product and its rounding\<close>
  have z0: "0 < z" using x0 by (simp add: z_def)
  have z_hi: "z < 256" unfolding z_def using ex' q_hi n1 by linarith
  have bz: "binade z < 8"
    using z0 z_hi by (intro binade_less) (simp_all add: powi_8)
  have ey: "\<bar>y - z\<bar> \<le> 2 powi (binade z - 53)"
    unfolding y_def using z0 by (rule fl64_error)
  have "(2::rat) powi (binade z - 53) \<le> 2 powi (- 46)"
    using bz by (intro two_powi_mono) simp
  with ey have ey': "\<bar>y - z\<bar> \<le> c46" by (simp add: powi_m46 c46_def)
  have ez: "\<bar>z - q * 255\<bar> \<le> 255 * c54"
    unfolding z_def using ex' by linarith
  have eyq: "\<bar>y - q * 255\<bar> \<le> 255 * c54 + c46"
    using ey' ez by linarith
  \<comment> \<open>the exact value, as quotient and remainder\<close>
  have "a * 255 = k * d + r" by (simp add: k_def r_def)
  then have "rat_of_nat (a * 255) = rat_of_nat (k * d + r)" by simp
  then have "rat_of_nat a * 255 = rat_of_nat k * rat_of_nat d + rat_of_nat r" by simp
  then have E: "q * 255 = rat_of_nat k + rat_of_nat r / rat_of_nat d"
    using dr by (simp add: q_def field_simps)
  have r_lt: "r < d" using d0 by (simp add: r_def)
  have rd_hi: "rat_of_nat r / rat_of_nat d \<le> 254 / 255"
  proof -
    have "r * 255 \<le> 254 * d" using r_lt d255 by simp
    then have "rat_of_nat (r * 255) \<le> rat_of_nat (254 * d)" by (simp only: of_nat_le_iff)
    then have "rat_of_nat r * 255 \<le> 254 * rat_of_nat d" by simp
    then show ?thesis using dr by (simp add: pos_divide_le_eq)
  qed
  have upper: "y < rat_of_nat k + 1"
    using eyq E rd_hi n3 by linarith
  have lower: "rat_of_nat k \<le> y"
  proof (cases "r = 0")
    case False
    then have "d \<le> r * 255" using d255 by simp
    then have "rat_of_nat d \<le> rat_of_nat (r * 255)" by (simp only: of_nat_le_iff)
    then have "rat_of_nat d \<le> rat_of_nat r * 255" by simp
    then have "1 / 255 \<le> rat_of_nat r / rat_of_nat d"
      using dr by (simp add: pos_le_divide_eq)
    with eyq E n3 show ?thesis by linarith
  next
    case True
    with E have Ek: "q * 255 = rat_of_nat k" by simp
    define m where "m = nat (binade q + 8)"
    have m: "m < 8" using bq_hi bq_lo by (simp add: m_def)
    have pm: "(2::rat) powi (binade q + 8) = 2 ^ m"
      using bq_lo by (simp add: m_def power_int_def)
    have b1: "(2::rat) powi (binade q) < 1"
      using two_powi_strict [OF bq_hi] by simp
    have "2 powi (binade q) \<le> q" using q0 by (rule binade_bounds)
    then have "255 * 2 powi (binade q) \<le> rat_of_nat k" using Ek by simp
    moreover have "(2::rat) powi (binade q + 8) = 256 * 2 powi (binade q)"
      by (simp add: two_powi_add powi_8)
    ultimately have "(2::rat) ^ m - 1 < rat_of_nat k" using b1 pm [symmetric] by linarith
    then have "rat_of_int (2 ^ m - 1) < rat_of_int (int k)" by simp
    then have "2 ^ m - 1 < int k" by (simp only: of_int_less_iff)
    then have km: "2 ^ m \<le> int k" by linarith
    show ?thesis
    proof (cases "int k = 2 ^ m")
      case True
      with m have "int k \<in> {1, 2, 4, 8, 16, 32, 64, 128}" by (simp only: pow2_cases)
      then have "fl64 (fl64 (rat_of_int (int k) / 255) * 255) = rat_of_int (int k)"
        by (rule pow2_table)
      then have "fl64 (fl64 (rat_of_nat k / 255) * 255) = rat_of_nat k" by simp
      moreover have "q = rat_of_nat k / 255" using Ek by linarith
      ultimately have "y = rat_of_nat k" by (simp only: y_def z_def x_def)
      then show ?thesis by simp
    next
      case False
      with km have "2 ^ m + 1 \<le> int k" by linarith
      then have "rat_of_int (2 ^ m + 1) \<le> rat_of_int (int k)" by (simp only: of_int_le_iff)
      then have k1: "(2::rat) ^ m + 1 \<le> rat_of_nat k" by simp
      have ezk: "\<bar>z - rat_of_nat k\<bar> \<le> 255 * u"
        unfolding z_def u_def using ex Ek by linarith
      have "u \<le> c54"
        using \<open>(2::rat) powi (binade q - 53) \<le> 2 powi (- 54)\<close>
        by (simp add: powi_m54 u_def c54_def)
      then have small: "255 * u < 1" using n1 by linarith
      have "(2::rat) ^ m \<le> z"
        using ezk k1 small by linarith
      then have "(2::rat) powi (binade q + 8) \<le> z" by (simp only: pm)
      then have bz_lo: "binade q + 8 \<le> binade z" using z0 by (intro binade_ge)
      have "q < 2 powi (binade q + 1)" using q0 by (rule binade_bounds)
      then have kq: "rat_of_nat k < 255 * 2 powi (binade q + 1)" using Ek by linarith
      have p9: "(2::rat) powi (binade q + 9) = 256 * 2 powi (binade q + 1)"
        using two_powi_add [of "binade q + 1" 8] by (simp add: powi_8 add.commute)
      have "(2::rat) powi (binade q + 1) = 2 ^ 54 * u"
        using two_powi_add [of "binade q - 53" 54] by (simp add: add.commute u_def)
      then have "255 * u < 2 powi (binade q + 1)" using u0 by simp
      with kq ezk have "z < 256 * 2 powi (binade q + 1)" by linarith
      then have "z < 2 powi (binade q + 9)" by (simp only: p9)
      then have "binade z < binade q + 9" using z0 by (intro binade_less)
      with bz_lo have bzq: "binade z = binade q + 8" by simp
      have "(2::rat) powi (binade z - 53) = 256 * u"
        using two_powi_add [of "binade q - 53" 8] by (simp add: bzq powi_8 add.commute u_def)
      then have "rat_of_nat k - 2 powi (binade z - 53) < z"
        using ezk u0 by linarith
      then have "rat_of_int (int k) - 2 powi (binade z - 53) < z" by simp
      with z0 have "rat_of_int (int k) \<le> fl64 z"
        using bz by (intro fl64_ge_int) simp_all
      then show ?thesis by (simp add: y_def)
    qed
  qed
  from lower upper show ?thesis by (simp add: y_def z_def x_def q_def k_def)
qed

lemma astype_fl64_stretch:
  assumes ad: "a \<le> d" and d0: "0 < d" and d255: "d \<le> (255::nat)"
  shows "astype_uint8 (fl64 (fl64 (rat_of_nat a / rat_of_nat d) * 255))
           = word_of_nat (a * 255 div d)"
proof -
  consider "a = 0" | "a = d" | "0 < a" "a < d" using ad by linarith
  then show ?thesis
  proof cases
    case 1
    then show ?thesis by (simp add: fl64_def astype_uint8_def)
  next
    case 2
    with d0 show ?thesis by (simp add: fl64_one fl64_255 astype_uint8_def)
  next
    case 3
    let ?y = "fl64 (fl64 (rat_of_nat a / rat_of_nat d) * 255)"
    from stretch_float_between [OF 3 d255]
    have lo: "rat_of_int (int (a * 255 div d)) \<le> ?y"
      and hi: "?y < rat_of_int (int (a * 255 div d)) + 1"
      by simp_all
    then have "\<lfloor>?y\<rfloor> = int (a * 255 div d)" by (rule floor_unique)
    moreover have "0 \<le> ?y" using lo by (rule order_trans [rotated]) simp
    ultimately show ?thesis by (simp add: astype_uint8_def)
  qed
qed

lemma fold_min_le: "fold min vs (v::uint8) \<le> v"
proof (induction vs arbitrary: v)
  case Nil then show ?case by simp
next
  case (Cons a vs)
  have "fold min vs (min a v) \<le> min a v" by (rule Cons.IH)
  also have "\<dots> \<le> v" by simp
  finally show ?case by simp
qed

lemma fold_min_le_set: "x \<in> set vs \<Longrightarrow> fold min vs (v::uint8) \<le> x"
proof (induction vs arbitrary: v)
  case Nil then show ?case by simp
next
  case (Cons a vs)
  show ?case
  proof (cases "x = a")
    case True
    have "fold min vs (min a v) \<le> min a v" by (rule fold_min_le)
    then show ?thesis using True by (simp add: min_le_iff_disj)
  next
    case False
    with Cons show ?thesis by simp
  qed
qed

lemma fold_max_ge: "v \<le> fold max vs (v::uint8)"
proof (induction vs arbitrary: v)
  case Nil then show ?case by simp
next
  case (Cons a vs)
  have "v \<le> max a v" by simp
  also have "\<dots> \<le> fold max vs (max a v)" by (rule Cons.IH)
  finally show ?case by simp
qed

lemma fold_max_ge_set: "x \<in> set vs \<Longrightarrow> x \<le> fold max vs (v::uint8)"
proof (induction vs arbitrary: v)
  case Nil then show ?case by simp
next
  case (Cons a vs)
  show ?case
  proof (cases "x = a")
    case True
    have "max a v \<le> fold max vs (max a v)" by (rule fold_max_ge)
    then show ?thesis using True by (simp add: le_max_iff_disj)
  next
    case False
    with Cons show ?thesis by simp
  qed
qed

lemma np_min_le: "np_min y = Inr m \<Longrightarrow> v \<in> set (concat y) \<Longrightarrow> m \<le> v"
  unfolding np_min_def
  by (cases "concat y") (auto simp: fold_min_le fold_min_le_set)

lemma np_max_ge: "np_max y = Inr m \<Longrightarrow> v \<in> set (concat y) \<Longrightarrow> v \<le> m"
  unfolding np_max_def
  by (cases "concat y") (auto simp: fold_max_ge fold_max_ge_set)

lemma np_min_le_max: "np_min y = Inr mn \<Longrightarrow> np_max y = Inr mx \<Longrightarrow> mn \<le> mx"
  unfolding np_min_def np_max_def
  by (cases "concat y") (auto intro: order_trans [OF fold_min_le fold_max_ge])

lemma floor_stretch_le: "v \<le> mx \<Longrightarrow> mn < mx \<Longrightarrow> floor_stretch mn mx v \<le> 255"
proof -
  assume a: "v \<le> mx" "mn < mx"
  then have "(v - mn) * 255 \<le> 255 * (mx - mn)" by simp
  then have "(v - mn) * 255 div (mx - mn) \<le> 255 * (mx - mn) div (mx - mn)"
    by (rule div_le_mono)
  with a show ?thesis by (simp add: floor_stretch_def)
qed

lemma stretch_sample_eq:
  assumes lo: "min_y \<le> v" and hi: "v \<le> max_y" and ne: "min_y < max_y"
  shows "stretch_sample min_y max_y v
           = word_of_nat (floor_stretch (unat min_y) (unat max_y) (unat v))"
proof -
  have mm: "min_y \<le> max_y" using ne by simp
  have a: "unat (v - min_y) = unat v - unat min_y" using lo by (simp add: unat_sub)
  have d: "unat (max_y - min_y) = unat max_y - unat min_y" using mm by (simp add: unat_sub)
  have "unat v \<le> unat max_y" using hi by (simp add: word_le_nat_alt)
  then have ad: "unat (v - min_y) \<le> unat (max_y - min_y)" by (simp add: a d)
  have "unat min_y < unat max_y" using ne by (simp add: word_less_nat_alt)
  then have d0: "0 < unat (max_y - min_y)" by (simp add: d)
  have "unat (max_y - min_y) < 2 ^ 8" using unsigned_less [of "max_y - min_y"] by simp
  then have d255: "unat (max_y - min_y) \<le> 255" by simp
  show ?thesis
    using astype_fl64_stretch [OF ad d0 d255]
    by (simp only: stretch_sample_def floor_stretch_def a d)
qed

lemma y_stretched_nonuniform:
  assumes mn: "np_min y = Inr min_y" and mx: "np_max y = Inr max_y" and ne: "max_y \<noteq> min_y"
  shows "y_stretched y =
           Inr (map (map (\<lambda>v. word_of_nat (floor_stretch (unat min_y) (unat max_y) (unat v)))) y)"
proof -
  have "min_y \<le> max_y" using mn mx by (rule np_min_le_max)
  with ne have lt: "min_y < max_y" by simp
  have "map (map (stretch_sample min_y max_y)) y =
        map (map (\<lambda>v. word_of_nat (floor_stretch (unat min_y) (unat max_y) (unat v)))) y"
  proof (intro map_cong refl)
    fix r v assume "r \<in> set y" "v \<in> set r"
    then have v: "v \<in> set (concat y)" by auto
    have "min_y \<le> v" using mn v by (rule np_min_le)
    moreover have "v \<le> max_y" using mx v by (rule np_max_ge)
    ultimately show "stretch_sample min_y max_y v
       = word_of_nat (floor_stretch (unat min_y) (unat max_y) (unat v))"
      using lt by (rule stretch_sample_eq)
  qed
  then show ?thesis
    using mn mx ne by (simp add: y_stretched_def np_stretch_def)
qed

lemma floor_stretch_in_range:
  assumes mn: "np_min y = Inr min_y" and mx: "np_max y = Inr max_y" and ne: "max_y \<noteq> min_y"
    and v: "v \<in> set (concat y)"
  shows "floor_stretch (unat min_y) (unat max_y) (unat v) \<le> 255"
proof (rule floor_stretch_le)
  show "unat v \<le> unat max_y"
    using np_max_ge [OF mx v] by (simp add: word_le_nat_alt)
  have "min_y \<le> max_y" using mn mx by (rule np_min_le_max)
  with ne have "min_y < max_y" by simp
  then show "unat min_y < unat max_y" by (simp add: word_less_nat_alt)
qed

lemma y_stretched_uniform:
  assumes "np_min y = Inr m" and "np_max y = Inr m"
  shows "y_stretched y = Inr y"
  using assms by (simp add: y_stretched_def)

lemma cvtColor_Inr:
  "cvtColor f src = Inr dst \<Longrightarrow> nonempty_grid src \<and> nonempty_grid dst \<and> dst = map (map f) src"
  by (auto simp: cvtColor_def nonempty_grid_def map_concat [symmetric] split: if_splits)

text \<open>
  C8. On an image whose luminance is uniform (\<open>np.max\<close> equals \<open>np.min\<close>), the stretched
  channel is the input channel, the YCrCb buffer is written back unchanged, no step fails
  (in particular the division is not evaluated), and the function returns the conversion
  of that unchanged buffer.
\<close>

theorem uniform_luminance_unchanged:
  assumes cvt: "cvtColor (BGR2YCrCb cv) img = Inr ycrcb"
    and mn: "np_min (luminance ycrcb) = Inr m"
    and mx: "np_max (luminance ycrcb) = Inr m"
  shows "y_stretched (luminance ycrcb) = Inr (luminance ycrcb)
       \<and> stretch_ycrcb ycrcb = Inr ycrcb
       \<and> enhance_contrast_stretching cv (Some (Color img))
           = Inr (Some (Color (map (map (YCrCb2BGR cv)) ycrcb)))"
proof -
  have y: "y_stretched (luminance ycrcb) = Inr (luminance ycrcb)"
    using mn mx by (rule y_stretched_uniform)
  then have s: "stretch_ycrcb ycrcb = Inr ycrcb"
    by (simp add: stretch_ycrcb_def set_luminance_same)
  have "nonempty_grid ycrcb" using cvtColor_Inr [OF cvt] by blast
  then have "cvtColor (YCrCb2BGR cv) ycrcb = Inr (map (map (YCrCb2BGR cv)) ycrcb)"
    by (simp add: cvtColor_def)
  with cvt s have "enhance_contrast_stretching cv (Some (Color img))
           = Inr (Some (Color (map (map (YCrCb2BGR cv)) ycrcb)))"
    by (simp add: enhance_contrast_stretching_def to_bgr_def)
  with y s show ?thesis by simp
qed

theorem uniform_luminance_unchanged_witness:
  "stretch_ycrcb [[(7, 1, 2), (7, 3, 4)], [(7, 5, 6), (7, 8, 9)]]
     = Inr [[(7, 1, 2), (7, 3, 4)], [(7, 5, 6), (7, 8, 9)]]
   \<and> enhance_contrast_stretching
       \<lparr>BGR2YCrCb = (\<lambda>p. p), YCrCb2BGR = (\<lambda>p. p), BGR2HSV = (\<lambda>p. p)\<rparr>
       (Some (Color [[(7, 1, 2), (7, 3, 4)], [(7, 5, 6), (7, 8, 9)]]))
     = Inr (Some (Color [[(7, 1, 2), (7, 3, 4)], [(7, 5, 6), (7, 8, 9)]]))"
  using uniform_luminance_unchanged
    [of "\<lparr>BGR2YCrCb = (\<lambda>p. p), YCrCb2BGR = (\<lambda>p. p), BGR2HSV = (\<lambda>p. p)\<rparr>"
        "[[(7, 1, 2), (7, 3, 4)], [(7, 5, 6), (7, 8, 9)]]"
        "[[(7, 1, 2), (7, 3, 4)], [(7, 5, 6), (7, 8, 9)]]" 7]
  by (simp add: cvtColor_def nonempty_grid_def luminance_def np_min_def np_max_def)

lemma set_luminance_map_row:
  "map2 (\<lambda>(y, c) y'. (y', c)) r (map (f \<circ> fst) r) = map (\<lambda>(y, c). (f y, c)) r"
  by (induction r) auto

lemma set_luminance_map:
  "set_luminance ycrcb (map (map f) (luminance ycrcb)) = map (map (\<lambda>(y, c). (f y, c))) ycrcb"
  unfolding set_luminance_def luminance_def
  by (induction ycrcb) (auto simp: set_luminance_map_row)

lemma luminance_map:
  "luminance (map (map (\<lambda>(y, c). (f y, c))) ycrcb) = map (map f) (luminance ycrcb)"
  by (simp add: luminance_def comp_def case_prod_beta)

lemma nonempty_grid_map: "nonempty_grid (map (map f) g) = nonempty_grid g"
  by (simp add: nonempty_grid_def map_concat [symmetric])

lemma unat_floor_stretch:
  "n \<le> 255 \<Longrightarrow> unat (word_of_nat n :: uint8) = n"
  by (simp add: unat_of_nat)

text \<open>
  C2, as the specification words it, fails: the code drops the fraction where the
  specification rounds. On an image whose luminance row is \<open>0, 1, 4\<close> the sample \<open>1\<close>
  becomes \<open>63\<close> (\<open>1 / 4 * 255 = 63.75\<close>, which float64 holds exactly), and the
  specification's formula gives \<open>64\<close>. (The colour conversions are the identity here, so
  the first component of a pixel is its luminance.)
\<close>

theorem stretch_rounds_counterexample:
  "np_min (luminance [[(0, 9, 9), (1, 9, 9), (4, 9, 9)]]) = Inr 0
   \<and> np_max (luminance [[(0, 9, 9), (1, 9, 9), (4, 9, 9)]]) = Inr 4
   \<and> stretch_ycrcb [[(0, 9, 9), (1, 9, 9), (4, 9, 9)]]
       = Inr [[(0, 9, 9), (63, 9, 9), (255, 9, 9)]]
   \<and> enhance_contrast_stretching \<lparr>BGR2YCrCb = (\<lambda>p. p), YCrCb2BGR = (\<lambda>p. p), BGR2HSV = (\<lambda>p. p)\<rparr> (Some (Color [[(0, 9, 9), (1, 9, 9), (4, 9, 9)]]))
       = Inr (Some (Color [[(0, 9, 9), (63, 9, 9), (255, 9, 9)]]))
   \<and> spec_stretch_sample 0 4 1 = 64"
proof (intro conjI)
  show "np_min (luminance [[(0, 9, 9), (1, 9, 9), (4, 9, 9)]]) = Inr 0"
    by (simp add: luminance_def np_min_def)
  show "np_max (luminance [[(0, 9, 9), (1, 9, 9), (4, 9, 9)]]) = Inr 4"
    by (simp add: luminance_def np_max_def)
  show "stretch_ycrcb [[(0, 9, 9), (1, 9, 9), (4, 9, 9)]]
       = Inr [[(0, 9, 9), (63, 9, 9), (255, 9, 9)]]"
    by code_simp
  show "enhance_contrast_stretching \<lparr>BGR2YCrCb = (\<lambda>p. p), YCrCb2BGR = (\<lambda>p. p), BGR2HSV = (\<lambda>p. p)\<rparr> (Some (Color [[(0, 9, 9), (1, 9, 9), (4, 9, 9)]]))
       = Inr (Some (Color [[(0, 9, 9), (63, 9, 9), (255, 9, 9)]]))"
    by code_simp
  show "spec_stretch_sample 0 4 1 = 64" by code_simp
qed

text \<open>
  C2, amended. For every image (grayscale or colour) whose luminance is not uniform, the
  function succeeds and returns the conversion of the YCrCb buffer in which every
  luminance sample \<open>v\<close> has been replaced by the quotient \<open>(v - min) * 255 / (max - min)\<close>
  rounded down (not to the nearest integer), the chroma left as it was: the two float64
  roundings never move the value across an integer. The value lies in \<open>0..255\<close>, so nothing
  is clamped or wrapped.
\<close>

theorem stretch_truncates:
  assumes bgr: "to_bgr im = Inr img_bgr"
    and cvt: "cvtColor (BGR2YCrCb cv) img_bgr = Inr ycrcb"
    and mn: "np_min (luminance ycrcb) = Inr min_y"
    and mx: "np_max (luminance ycrcb) = Inr max_y"
    and ne: "max_y \<noteq> min_y"
  shows "stretch_ycrcb ycrcb
           = Inr (set_luminance ycrcb (floor_stretched min_y max_y (luminance ycrcb)))
       \<and> luminance (set_luminance ycrcb (floor_stretched min_y max_y (luminance ycrcb)))
           = floor_stretched min_y max_y (luminance ycrcb)
       \<and> enhance_contrast_stretching cv (Some im)
           = Inr (Some (Color (map (map (YCrCb2BGR cv))
               (set_luminance ycrcb (floor_stretched min_y max_y (luminance ycrcb))))))
       \<and> (\<forall>v \<in> set (concat (luminance ycrcb)).
             floor_stretch (unat min_y) (unat max_y) (unat v) \<le> 255
             \<and> unat (word_of_nat (floor_stretch (unat min_y) (unat max_y) (unat v)) :: uint8)
                 = floor_stretch (unat min_y) (unat max_y) (unat v))"
proof -
  let ?F = "floor_stretched min_y max_y (luminance ycrcb)"
  let ?out = "set_luminance ycrcb ?F"
  have y: "y_stretched (luminance ycrcb) = Inr ?F"
    unfolding floor_stretched_def using mn mx ne by (rule y_stretched_nonuniform)
  then have s: "stretch_ycrcb ycrcb = Inr ?out"
    by (simp add: stretch_ycrcb_def)
  have out: "?out = map (map (\<lambda>(y, c).
        (word_of_nat (floor_stretch (unat min_y) (unat max_y) (unat y)), c))) ycrcb"
    unfolding floor_stretched_def by (rule set_luminance_map)
  have l: "luminance ?out = ?F"
    by (simp only: out luminance_map) (simp add: floor_stretched_def)
  have "nonempty_grid ycrcb" using cvtColor_Inr [OF cvt] by blast
  then have "nonempty_grid ?out" by (simp only: out nonempty_grid_map)
  then have "cvtColor (YCrCb2BGR cv) ?out = Inr (map (map (YCrCb2BGR cv)) ?out)"
    by (simp add: cvtColor_def)
  with bgr cvt s have e: "enhance_contrast_stretching cv (Some im)
           = Inr (Some (Color (map (map (YCrCb2BGR cv)) ?out)))"
    by (simp add: enhance_contrast_stretching_def)
  have r: "\<forall>v \<in> set (concat (luminance ycrcb)).
             floor_stretch (unat min_y) (unat max_y) (unat v) \<le> 255
             \<and> unat (word_of_nat (floor_stretch (unat min_y) (unat max_y) (unat v)) :: uint8)
                 = floor_stretch (unat min_y) (unat max_y) (unat v)"
  proof
    fix v assume "v \<in> set (concat (luminance ycrcb))"
    with mn mx ne have "floor_stretch (unat min_y) (unat max_y) (unat v) \<le> 255"
      by (rule floor_stretch_in_range)
    then show "floor_stretch (unat min_y) (unat max_y) (unat v) \<le> 255
             \<and> unat (word_of_nat (floor_stretch (unat min_y) (unat max_y) (unat v)) :: uint8)
                 = floor_stretch (unat min_y) (unat max_y) (unat v)"
      by (simp add: unat_floor_stretch)
  qed
  from s l e r show ?thesis by (intro conjI)
qed

theorem stretch_truncates_witness:
  "np_min (luminance [[(10, 1, 2), (11, 3, 4)], [(14, 5, 6), (12, 7, 8)]]) = Inr 10
   \<and> np_max (luminance [[(10, 1, 2), (11, 3, 4)], [(14, 5, 6), (12, 7, 8)]]) = Inr 14
   \<and> floor_stretch 10 14 11 = 63 \<and> floor_stretch 10 14 12 = 127
   \<and> enhance_contrast_stretching \<lparr>BGR2YCrCb = (\<lambda>p. p), YCrCb2BGR = (\<lambda>p. p), BGR2HSV = (\<lambda>p. p)\<rparr>
        (Some (Color [[(10, 1, 2), (11, 3, 4)], [(14, 5, 6), (12, 7, 8)]]))
      = Inr (Some (Color [[(0, 1, 2), (63, 3, 4)], [(255, 5, 6), (127, 7, 8)]]))"
proof -
  let ?img = "[[(10, 1, 2), (11, 3, 4)], [(14, 5, 6), (12, 7, 8)]] :: color"
  have bgr: "to_bgr (Color ?img) = Inr ?img" by (simp add: to_bgr_def)
  have cvt: "cvtColor (BGR2YCrCb \<lparr>BGR2YCrCb = (\<lambda>p. p), YCrCb2BGR = (\<lambda>p. p), BGR2HSV = (\<lambda>p. p)\<rparr>) ?img = Inr ?img"
    by (simp add: cvtColor_def nonempty_grid_def)
  have mn: "np_min (luminance ?img) = Inr 10" by (simp add: luminance_def np_min_def)
  have mx: "np_max (luminance ?img) = Inr 14" by (simp add: luminance_def np_max_def)
  have ne: "(14 :: uint8) \<noteq> 10" by simp
  from stretch_truncates [OF bgr cvt mn mx ne]
  have "enhance_contrast_stretching \<lparr>BGR2YCrCb = (\<lambda>p. p), YCrCb2BGR = (\<lambda>p. p), BGR2HSV = (\<lambda>p. p)\<rparr> (Some (Color ?img))
      = Inr (Some (Color (map (map (YCrCb2BGR \<lparr>BGR2YCrCb = (\<lambda>p. p), YCrCb2BGR = (\<lambda>p. p), BGR2HSV = (\<lambda>p. p)\<rparr>))
          (set_luminance ?img (floor_stretched 10 14 (luminance ?img))))))"
    by simp
  then have "enhance_contrast_stretching \<lparr>BGR2YCrCb = (\<lambda>p. p), YCrCb2BGR = (\<lambda>p. p), BGR2HSV = (\<lambda>p. p)\<rparr> (Some (Color ?img))
      = Inr (Some (Color [[(0, 1, 2), (63, 3, 4)], [(255, 5, 6), (127, 7, 8)]]))"
    by (simp add: set_luminance_def floor_stretched_def floor_stretch_def luminance_def)
  with mn mx show ?thesis by (simp add: floor_stretch_def)
qed

section \<open>HSV thresholding: \<^verbatim>\<open>apply_hsv_threshold\<close>\<close>

text \<open>
  The bounds are NumPy integer arrays (\<^verbatim>\<open>np.array([40, 50, 30])\<close>, 64-bit elements). The
  call \<^verbatim>\<open>cv2.inRange(hsv, lower, upper)\<close> takes such an array as 32-bit signed integers:
  each element keeps its low 32 bits. A pixel of the mask is 255 when every component
  lies between its two bounds as so taken, both included, and 0 otherwise.
\<close>

type_synonym bounds = "int \<times> int \<times> int"
type_synonym bounds32 = "32 word \<times> 32 word \<times> 32 word"

definition to_int32 :: "bounds \<Rightarrow> bounds32" where
  "to_int32 b = (case b of (b0, b1, b2) \<Rightarrow> (word_of_int b0, word_of_int b1, word_of_int b2))"

fun in_bounds :: "pixel \<Rightarrow> bounds32 \<Rightarrow> bounds32 \<Rightarrow> bool" where
  "in_bounds (h, s, v) (l0, l1, l2) (u0, u1, u2) =
     (sint l0 \<le> uint h \<and> uint h \<le> sint u0 \<and> sint l1 \<le> uint s \<and> uint s \<le> sint u1
      \<and> sint l2 \<le> uint v \<and> uint v \<le> sint u2)"

definition inRange :: "color \<Rightarrow> bounds \<Rightarrow> bounds \<Rightarrow> gray" where
  "inRange hsv lower upper =
     map (map (\<lambda>p. if in_bounds p (to_int32 lower) (to_int32 upper) then 255 else 0)) hsv"

definition apply_hsv_threshold ::
    "colorspaces \<Rightarrow> image option \<Rightarrow> bounds \<Rightarrow> bounds \<Rightarrow> py_error + gray option" where
  "apply_hsv_threshold cv img lower_hsv upper_hsv =
     (case img of None \<Rightarrow> Inr None
      | Some im \<Rightarrow>
         (case to_bgr im of Inl e \<Rightarrow> Inl e | Inr img_bgr \<Rightarrow>
         (case cvtColor (BGR2HSV cv) img_bgr of Inl e \<Rightarrow> Inl e
          | Inr hsv \<Rightarrow> Inr (Some (inRange hsv lower_hsv upper_hsv)))))"

text \<open>
  The words of the specification: a pixel lies within the bounds when each component is
  between the lower and the upper bound given, both included; the bounds are ordered when
  no lower component exceeds its upper component. Bounds fit 32 bits when every component
  is a value of a signed 32-bit integer, as every bound of a channel range (0 to 255) is.
\<close>

fun in_range :: "pixel \<Rightarrow> bounds \<Rightarrow> bounds \<Rightarrow> bool" where
  "in_range (h, s, v) (l0, l1, l2) (u0, u1, u2) =
     (l0 \<le> uint h \<and> uint h \<le> u0 \<and> l1 \<le> uint s \<and> uint s \<le> u1 \<and> l2 \<le> uint v \<and> uint v \<le> u2)"

fun ordered_bounds :: "bounds \<Rightarrow> bounds \<Rightarrow> bool" where
  "ordered_bounds (l0, l1, l2) (u0, u1, u2) = (l0 \<le> u0 \<and> l1 \<le> u1 \<and> l2 \<le> u2)"

definition fits_int32 :: "int \<Rightarrow> bool" where
  "fits_int32 b = (- (2 ^ 31) \<le> b \<and> b < 2 ^ 31)"

fun bounds_fit_int32 :: "bounds \<Rightarrow> bool" where
  "bounds_fit_int32 (b0, b1, b2) = (fits_int32 b0 \<and> fits_int32 b1 \<and> fits_int32 b2)"

section \<open>Morphology: \<^verbatim>\<open>apply_morphology_erode\<close>, \<^verbatim>\<open>_dilate\<close>, \<^verbatim>\<open>_open\<close>, \<^verbatim>\<open>_close\<close>\<close>

text \<open>
  \<^verbatim>\<open>cv2.getStructuringElement(cv2.MORPH_RECT, (w, h))\<close> is an \<open>h\<close> by \<open>w\<close> matrix of ones; OpenCV
  refuses a size without elements.
\<close>

type_synonym kernel = "uint8 list list"

definition getStructuringElement_RECT :: "nat \<times> nat \<Rightarrow> py_error + kernel" where
  "getStructuringElement_RECT ksize =
     (case ksize of (w, h) \<Rightarrow>
        if w = 0 \<or> h = 0 then Inl CvError else Inr (replicate h (replicate w 1)))"

definition DEFAULT_KERNEL_SIZE :: "nat \<times> nat" where
  "DEFAULT_KERNEL_SIZE = (5, 5)"

text \<open>
  The samples of \<open>src\<close> under the non-zero elements of the kernel when its anchor (the
  centre, \<open>(w div 2, h div 2)\<close>) lies on row \<open>r\<close>, column \<open>c\<close>. Positions outside the image
  are left out: with the default border value they never decide a minimum or a maximum.
\<close>

definition under_kernel :: "gray \<Rightarrow> kernel \<Rightarrow> nat \<Rightarrow> nat \<Rightarrow> uint8 list" where
  "under_kernel src k r c =
     concat (map (\<lambda>i. concat (map (\<lambda>j.
        let r' = int r + int i - int (grid_h k div 2);
            c' = int c + int j - int (grid_w k div 2)
        in if k ! i ! j \<noteq> 0 \<and> 0 \<le> r' \<and> r' < int (length src)
              \<and> 0 \<le> c' \<and> c' < int (length (src ! nat r'))
           then [src ! nat r' ! nat c'] else [])
        [0..<length (k ! i)])) [0..<length k])"

text \<open>\<^verbatim>\<open>cv2.erode\<close>: the minimum under the kernel; \<^verbatim>\<open>cv2.dilate\<close>: the maximum.\<close>

definition erode :: "gray \<Rightarrow> kernel \<Rightarrow> py_error + gray" where
  "erode src k =
     (if nonempty_grid src
      then Inr (map (\<lambda>r. map (\<lambda>c. fold min (under_kernel src k r c) 255)
                            [0..<length (src ! r)]) [0..<length src])
      else Inl CvError)"

definition dilate :: "gray \<Rightarrow> kernel \<Rightarrow> py_error + gray" where
  "dilate src k =
     (if nonempty_grid src
      then Inr (map (\<lambda>r. map (\<lambda>c. fold max (under_kernel src k r c) 0)
                            [0..<length (src ! r)]) [0..<length src])
      else Inl CvError)"

text \<open>
  \<^verbatim>\<open>cv2.morphologyEx\<close> with one iteration: \<^verbatim>\<open>MORPH_OPEN\<close> erodes into the destination and
  dilates the destination; \<^verbatim>\<open>MORPH_CLOSE\<close> dilates, then erodes.
\<close>

datatype morph_type = MORPH_ERODE | MORPH_DILATE | MORPH_OPEN | MORPH_CLOSE

fun morphologyEx :: "gray \<Rightarrow> morph_type \<Rightarrow> kernel \<Rightarrow> py_error + gray" where
  "morphologyEx src MORPH_ERODE k = erode src k"
| "morphologyEx src MORPH_DILATE k = dilate src k"
| "morphologyEx src MORPH_OPEN k =
     (if nonempty_grid src
      then (case erode src k of Inl e \<Rightarrow> Inl e | Inr dst \<Rightarrow> dilate dst k)
      else Inl CvError)"
| "morphologyEx src MORPH_CLOSE k =
     (if nonempty_grid src
      then (case dilate src k of Inl e \<Rightarrow> Inl e | Inr dst \<Rightarrow> erode dst k)
      else Inl CvError)"

definition apply_morphology_erode :: "gray option \<Rightarrow> nat \<times> nat \<Rightarrow> py_error + gray option" where
  "apply_morphology_erode msk kernel_size =
     (case msk of None \<Rightarrow> Inr None
      | Some m \<Rightarrow>
         (case getStructuringElement_RECT kernel_size of Inl e \<Rightarrow> Inl e | Inr k \<Rightarrow>
         (case erode m k of Inl e \<Rightarrow> Inl e | Inr dst \<Rightarrow> Inr (Some dst))))"

definition apply_morphology_dilate :: "gray option \<Rightarrow> nat \<times> nat \<Rightarrow> py_error + gray option" where
  "apply_morphology_dilate msk kernel_size =
     (case msk of None \<Rightarrow> Inr None
      | Some m \<Rightarrow>
         (case getStructuringElement_RECT kernel_size of Inl e \<Rightarrow> Inl e | Inr k \<Rightarrow>
         (case dilate m k of Inl e \<Rightarrow> Inl e | Inr dst \<Rightarrow> Inr (Some dst))))"

definition apply_morphology_open :: "gray option \<Rightarrow> nat \<times> nat \<Rightarrow> py_error + gray option" where
  "apply_morphology_open msk kernel_size =
     (case msk of None \<Rightarrow> Inr None
      | Some m \<Rightarrow>
         (case getStructuringElement_RECT kernel_size of Inl e \<Rightarrow> Inl e | Inr k \<Rightarrow>
         (case morphologyEx m MORPH_OPEN k of Inl e \<Rightarrow> Inl e | Inr dst \<Rightarrow> Inr (Some dst))))"

definition apply_morphology_close :: "gray option \<Rightarrow> nat \<times> nat \<Rightarrow> py_error + gray option" where
  "apply_morphology_close msk kernel_size =
     (case msk of None \<Rightarrow> Inr None
      | Some m \<Rightarrow>
         (case getStructuringElement_RECT kernel_size of Inl e \<Rightarrow> Inl e | Inr k \<Rightarrow>
         (case morphologyEx m MORPH_CLOSE k of Inl e \<Rightarrow> Inl e | Inr dst \<Rightarrow> Inr (Some dst))))"

text \<open>
  Feeding the result of one operation to the next, as in \<^verbatim>\<open>Dilate(Erode(mask))\<close>: an
  exception of the first ends the evaluation.
\<close>

definition and_then :: "py_error + 'a \<Rightarrow> ('a \<Rightarrow> py_error + 'b) \<Rightarrow> py_error + 'b" where
  "and_then r f = (case r of Inl e \<Rightarrow> Inl e | Inr x \<Rightarrow> f x)"

section \<open>Properties of HSV thresholding\<close>

lemma inRange_values: "set (concat (inRange hsv lo up)) \<subseteq> {0, 255}"
  by (auto simp: inRange_def)

lemma grid_w_map: "grid_w (map (map f) rows) = grid_w rows"
  by (cases rows) (simp_all add: grid_w_def)

lemma apply_hsv_threshold_Color:
  assumes "nonempty_grid img"
  shows "apply_hsv_threshold cv (Some (Color img)) lo up
           = Inr (Some (inRange (map (map (BGR2HSV cv)) img) lo up))"
  using assms by (simp add: apply_hsv_threshold_def to_bgr_def cvtColor_def)

lemma card_two: "finite A \<Longrightarrow> A \<subseteq> {a, b} \<Longrightarrow> card A \<le> 2"
proof -
  assume "finite A" "A \<subseteq> {a, b}"
  then have "card A \<le> card {a, b}" by (intro card_mono) simp_all
  also have "\<dots> \<le> 2" by (simp add: card_insert_if)
  finally show ?thesis .
qed

lemma sint_fits_int32: "fits_int32 b \<Longrightarrow> sint (word_of_int b :: 32 word) = b"
  by (simp add: fits_int32_def signed_of_int signed_take_bit_int_eq_self)

lemma in_bounds_fit:
  assumes "bounds_fit_int32 lo" and "bounds_fit_int32 up"
  shows "in_bounds p (to_int32 lo) (to_int32 up) = in_range p lo up"
  using assms
  by (cases p; cases lo; cases up) (simp add: to_int32_def sint_fits_int32)

lemma in_range_unordered: "\<not> ordered_bounds lo up \<Longrightarrow> \<not> in_range p lo up"
  by (cases p; cases lo; cases up) auto

lemma inRange_fit:
  assumes "bounds_fit_int32 lo" and "bounds_fit_int32 up"
  shows "inRange hsv lo up = map (map (\<lambda>p. if in_range p lo up then 255 else 0)) hsv"
  by (simp add: inRange_def in_bounds_fit [OF assms])

lemma inRange_unordered:
  assumes "bounds_fit_int32 lo" and "bounds_fit_int32 up" and "\<not> ordered_bounds lo up"
  shows "inRange hsv lo up = map (map (\<lambda>_. 0)) hsv"
  using assms by (simp add: inRange_fit in_range_unordered)

text \<open>
  Beyond 32 bits the bounds wrap: the upper bound \<open>2^32 + 100\<close> on the value channel acts as
  100, and the lower bound \<open>2^32 - 1\<close> acts as \<open>-1\<close>.
\<close>

lemma inRange_wraps_bounds:
  "apply_hsv_threshold \<lparr>BGR2YCrCb = (\<lambda>p. p), YCrCb2BGR = (\<lambda>p. p), BGR2HSV = (\<lambda>p. p)\<rparr>
      (Some (Color [[(0, 0, 50), (0, 0, 100), (0, 0, 101), (0, 0, 200)]]))
      (0, 0, 0) (0, 0, 4294967396) = Inr (Some [[255, 255, 0, 0]])"
  "apply_hsv_threshold \<lparr>BGR2YCrCb = (\<lambda>p. p), YCrCb2BGR = (\<lambda>p. p), BGR2HSV = (\<lambda>p. p)\<rparr>
      (Some (Color [[(0, 0, 50), (0, 0, 100), (0, 0, 101), (0, 0, 200)]]))
      (0, 0, 4294967295) (255, 255, 255) = Inr (Some [[255, 255, 255, 255]])"
  by (simp_all add: nonempty_grid_def apply_hsv_threshold_def to_bgr_def cvtColor_def
      inRange_def to_int32_def)

text \<open>
  C4. For a three-channel image (with at least one pixel, as every decoded image has) and
  bounds that fit 32 bits (as the bounds of a channel range do), the function returns a
  mask with the height and width of the input, row by row; a mask pixel is 255 exactly
  when the three HSV components of the input pixel lie within the inclusive bounds, and 0
  exactly when they do not; so the mask holds at most the two values 0 and 255. The
  theorem needs no ordering of the bounds, so it covers the claim's case
  \<open>lower \<le> upper\<close>.
\<close>

theorem hsv_mask_correct:
  assumes ne: "nonempty_grid img"
    and flo: "bounds_fit_int32 lo" and fup: "bounds_fit_int32 up"
  shows "\<exists>m. apply_hsv_threshold cv (Some (Color img)) lo up = Inr (Some m)
           \<and> grid_h m = grid_h img \<and> grid_w m = grid_w img
           \<and> (\<forall>i < length img. length (m ! i) = length (img ! i)
                \<and> (\<forall>j < length (img ! i).
                      (m ! i ! j = 255 \<longleftrightarrow> in_range (BGR2HSV cv (img ! i ! j)) lo up)
                    \<and> (m ! i ! j = 0 \<longleftrightarrow> \<not> in_range (BGR2HSV cv (img ! i ! j)) lo up)))
           \<and> set (concat m) \<subseteq> {0, 255} \<and> card (set (concat m)) \<le> 2"
proof -
  let ?hsv = "map (map (BGR2HSV cv)) img"
  let ?m = "inRange ?hsv lo up"
  have r: "apply_hsv_threshold cv (Some (Color img)) lo up = Inr (Some ?m)"
    using ne by (rule apply_hsv_threshold_Color)
  have h: "grid_h ?m = grid_h img" by (simp add: grid_h_def inRange_def)
  have w: "grid_w ?m = grid_w img" by (simp add: inRange_def grid_w_map)
  have px: "\<forall>i < length img. length (?m ! i) = length (img ! i)
                \<and> (\<forall>j < length (img ! i).
                      (?m ! i ! j = 255 \<longleftrightarrow> in_range (BGR2HSV cv (img ! i ! j)) lo up)
                    \<and> (?m ! i ! j = 0 \<longleftrightarrow> \<not> in_range (BGR2HSV cv (img ! i ! j)) lo up))"
    by (simp add: inRange_fit [OF flo fup])
  have v: "set (concat ?m) \<subseteq> {0, 255}" by (rule inRange_values)
  then have c: "card (set (concat ?m)) \<le> 2" by (intro card_two) simp_all
  from r h w px v c show ?thesis by blast
qed

theorem hsv_mask_correct_witness:
  "bounds_fit_int32 (40, 50, 30) \<and> bounds_fit_int32 (100, 255, 200)
   \<and> apply_hsv_threshold \<lparr>BGR2YCrCb = (\<lambda>p. p), YCrCb2BGR = (\<lambda>p. p), BGR2HSV = (\<lambda>p. p)\<rparr>
      (Some (Color [[(45, 100, 100), (45, 10, 100)], [(101, 100, 100), (100, 255, 200)]]))
      (40, 50, 30) (100, 255, 200) = Inr (Some [[255, 0], [0, 255]])"
proof -
  have ne: "nonempty_grid [[(45, 100, 100), (45, 10, 100 :: uint8)],
                           [(101, 100, 100), (100, 255, 200)] :: pixel list]"
    by (simp add: nonempty_grid_def)
  have flo: "bounds_fit_int32 (40, 50, 30)" and fup: "bounds_fit_int32 (100, 255, 200)"
    by (simp_all add: fits_int32_def)
  from hsv_mask_correct [OF ne flo fup, of "\<lparr>BGR2YCrCb = (\<lambda>p. p), YCrCb2BGR = (\<lambda>p. p), BGR2HSV = (\<lambda>p. p)\<rparr>"] flo fup
  show ?thesis
    by (simp add: nonempty_grid_def apply_hsv_threshold_def to_bgr_def cvtColor_def
        inRange_def to_int32_def)
qed

text \<open>
  C9, as the specification words it, fails in its second half: the function never
  compares the bounds. With the lower hue bound 50 above the upper hue bound 40 it
  returns a mask (of zeros) and signals nothing.
\<close>

theorem hsv_range_unchecked_counterexample:
  "\<not> ordered_bounds (50, 0, 0) (40, 255, 255)
   \<and> apply_hsv_threshold \<lparr>BGR2YCrCb = (\<lambda>p. p), YCrCb2BGR = (\<lambda>p. p), BGR2HSV = (\<lambda>p. p)\<rparr>
       (Some (Color [[(45, 100, 100)]])) (50, 0, 0) (40, 255, 255) = Inr (Some [[0]])"
  by (simp add: nonempty_grid_def apply_hsv_threshold_def to_bgr_def cvtColor_def
      inRange_def to_int32_def)

text \<open>
  C9, amended. For an absent image, whatever the bounds, the function returns \<open>None\<close>: no
  mask, and no exception. Bounds are not validated: for a present image and any bounds
  the function returns a mask of the input's height and width; when some lower component
  exceeds the upper one and the bounds fit 32 bits, every pixel of that mask is 0.
\<close>

theorem hsv_absent_or_unordered:
  "apply_hsv_threshold cv None lo up = Inr None
   \<and> (nonempty_grid img
      \<longrightarrow> (\<exists>m. apply_hsv_threshold cv (Some (Color img)) lo' up' = Inr (Some m)
               \<and> grid_h m = grid_h img \<and> grid_w m = grid_w img))
   \<and> (nonempty_grid img \<and> bounds_fit_int32 lo' \<and> bounds_fit_int32 up'
        \<and> \<not> ordered_bounds lo' up'
      \<longrightarrow> apply_hsv_threshold cv (Some (Color img)) lo' up'
            = Inr (Some (map (map (\<lambda>_. 0)) img)))"
proof (intro conjI impI)
  show "apply_hsv_threshold cv None lo up = Inr None"
    by (simp add: apply_hsv_threshold_def)
next
  assume ne: "nonempty_grid img"
  let ?m = "inRange (map (map (BGR2HSV cv)) img) lo' up'"
  have "apply_hsv_threshold cv (Some (Color img)) lo' up' = Inr (Some ?m)"
    using ne by (rule apply_hsv_threshold_Color)
  moreover have "grid_h ?m = grid_h img" by (simp add: grid_h_def inRange_def)
  moreover have "grid_w ?m = grid_w img" by (simp add: inRange_def grid_w_map)
  ultimately show "\<exists>m. apply_hsv_threshold cv (Some (Color img)) lo' up' = Inr (Some m)
               \<and> grid_h m = grid_h img \<and> grid_w m = grid_w img"
    by blast
next
  assume a: "nonempty_grid img \<and> bounds_fit_int32 lo' \<and> bounds_fit_int32 up'
        \<and> \<not> ordered_bounds lo' up'"
  then have "inRange (map (map (BGR2HSV cv)) img) lo' up' = map (map (\<lambda>_. 0)) img"
    by (simp add: inRange_unordered comp_def)
  with a show "apply_hsv_threshold cv (Some (Color img)) lo' up'
               = Inr (Some (map (map (\<lambda>_. 0)) img))"
    by (simp add: apply_hsv_threshold_Color)
qed

theorem hsv_absent_or_unordered_witness:
  "apply_hsv_threshold \<lparr>BGR2YCrCb = (\<lambda>p. p), YCrCb2BGR = (\<lambda>p. p), BGR2HSV = (\<lambda>p. p)\<rparr> None (40, 50, 30) (100, 255, 200) = Inr None
   \<and> bounds_fit_int32 (40, 50, 201) \<and> bounds_fit_int32 (100, 255, 200)
   \<and> \<not> ordered_bounds (40, 50, 201) (100, 255, 200)
   \<and> apply_hsv_threshold \<lparr>BGR2YCrCb = (\<lambda>p. p), YCrCb2BGR = (\<lambda>p. p), BGR2HSV = (\<lambda>p. p)\<rparr>
      (Some (Color [[(45, 100, 100), (60, 60, 60)]])) (40, 50, 201) (100, 255, 200)
     = Inr (Some [[0, 0]])"
proof -
  have ne: "nonempty_grid [[(45, 100, 100), (60, 60, 60 :: uint8)] :: pixel list]"
    by (simp add: nonempty_grid_def)
  have f: "bounds_fit_int32 (40, 50, 201)" "bounds_fit_int32 (100, 255, 200)"
    by (simp_all add: fits_int32_def)
  have uo: "\<not> ordered_bounds (40, 50, 201) (100, 255, 200)" by simp
  from hsv_absent_or_unordered
    [of "\<lparr>BGR2YCrCb = (\<lambda>p. p), YCrCb2BGR = (\<lambda>p. p), BGR2HSV = (\<lambda>p. p)\<rparr>" "(40, 50, 30)" "(100, 255, 200)" "[[(45, 100, 100), (60, 60, 60)]]"
        "(40, 50, 201)" "(100, 255, 200)"] ne f uo
  show ?thesis by simp
qed

section \<open>Properties of the morphology operations\<close>

lemma morph_open_eq:
  "apply_morphology_open msk ks
     = and_then (apply_morphology_erode msk ks) (\<lambda>m. apply_morphology_dilate m ks)"
proof (cases msk)
  case None
  then show ?thesis
    by (simp add: apply_morphology_open_def apply_morphology_dilate_def
        apply_morphology_erode_def and_then_def)
next
  case (Some m)
  show ?thesis
  proof (cases "getStructuringElement_RECT ks")
    case (Inl e)
    with Some show ?thesis
      by (simp add: apply_morphology_open_def apply_morphology_erode_def and_then_def)
  next
    case (Inr k)
    show ?thesis
    proof (cases "erode m k")
      case (Inl e)
      with Some Inr show ?thesis
        by (simp add: apply_morphology_open_def apply_morphology_erode_def and_then_def
            erode_def split: if_splits)
    next
      case d: (Inr dst)
      then have "nonempty_grid m" by (simp add: erode_def split: if_splits)
      with Some Inr d show ?thesis
        by (simp add: apply_morphology_open_def apply_morphology_erode_def and_then_def
            apply_morphology_dilate_def)
    qed
  qed
qed

lemma morph_close_eq:
  "apply_morphology_close msk ks
     = and_then (apply_morphology_dilate msk ks) (\<lambda>m. apply_morphology_erode m ks)"
proof (cases msk)
  case None
  then show ?thesis
    by (simp add: apply_morphology_close_def apply_morphology_dilate_def
        apply_morphology_erode_def and_then_def)
next
  case (Some m)
  show ?thesis
  proof (cases "getStructuringElement_RECT ks")
    case (Inl e)
    with Some show ?thesis
      by (simp add: apply_morphology_close_def apply_morphology_dilate_def and_then_def)
  next
    case (Inr k)
    show ?thesis
    proof (cases "dilate m k")
      case (Inl e)
      with Some Inr show ?thesis
        by (simp add: apply_morphology_close_def apply_morphology_dilate_def and_then_def
            dilate_def split: if_splits)
    next
      case d: (Inr dst)
      then have "nonempty_grid m" by (simp add: dilate_def split: if_splits)
      with Some Inr d show ?thesis
        by (simp add: apply_morphology_close_def apply_morphology_dilate_def and_then_def
            apply_morphology_erode_def)
    qed
  qed
qed

text \<open>
  C7. For every mask (present or \<open>None\<close>) and every kernel size, the opening function
  returns what the dilation function returns on the result of the erosion function, and
  the closing function what erosion returns on the result of dilation, with the same
  kernel size; a failure of the first operation is the failure of the composition.
  (\<^verbatim>\<open>cv2.erode\<close>, \<^verbatim>\<open>cv2.dilate\<close> and \<^verbatim>\<open>cv2.morphologyEx\<close> are modelled after OpenCV.)
\<close>

theorem open_close_compositions:
  "apply_morphology_open msk ks
     = and_then (apply_morphology_erode msk ks) (\<lambda>m. apply_morphology_dilate m ks)
   \<and> apply_morphology_close msk ks
     = and_then (apply_morphology_dilate msk ks) (\<lambda>m. apply_morphology_erode m ks)"
proof
  show "apply_morphology_open msk ks
     = and_then (apply_morphology_erode msk ks) (\<lambda>m. apply_morphology_dilate m ks)"
    by (rule morph_open_eq)
next
  show "apply_morphology_close msk ks
     = and_then (apply_morphology_dilate msk ks) (\<lambda>m. apply_morphology_erode m ks)"
    by (rule morph_close_eq)
qed

theorem open_close_compositions_witness:
  "apply_morphology_open
      (Some [[255, 255, 255, 0], [255, 255, 255, 0], [255, 255, 255, 0], [0, 0, 0, 255]]) (3, 3)
     = Inr (Some [[255, 255, 255, 0], [255, 255, 255, 0], [255, 255, 255, 0], [0, 0, 0, 0]])
   \<and> and_then (apply_morphology_erode
        (Some [[255, 255, 255, 0], [255, 255, 255, 0], [255, 255, 255, 0], [0, 0, 0, 255]]) (3, 3))
        (\<lambda>m. apply_morphology_dilate m (3, 3))
     = Inr (Some [[255, 255, 255, 0], [255, 255, 255, 0], [255, 255, 255, 0], [0, 0, 0, 0]])"
  using open_close_compositions
    [of "Some [[255, 255, 255, 0], [255, 255, 255, 0], [255, 255, 255, 0], [0, 0, 0, 255]]"
        "(3, 3)"]
  by code_simp

section \<open>Drawing detections and the verdict: \<^verbatim>\<open>draw_detections_and_classify\<close>\<close>

text \<open>
  A detection is the dictionary the caller builds: \<^verbatim>\<open>'name'\<close> and \<^verbatim>\<open>'bbox'\<close> are read with
  \<^verbatim>\<open>obj[...]\<close>, \<^verbatim>\<open>'score'\<close> with \<^verbatim>\<open>obj.get('score', 1.0)\<close>, so only the score may be missing.
  Scores and the threshold are floats that are only compared; they are rationals here.
\<close>

record detection =
  name :: string
  bbox :: "int \<times> int \<times> int \<times> int"
  score :: "rat option"

datatype kualitas = SEGAR | BERJAMUR

type_synonym bgr = "nat \<times> nat \<times> nat"

text \<open>
  The calls made on \<^verbatim>\<open>img_display\<close>: \<^verbatim>\<open>cv2.rectangle(img, pt1, pt2, color, 2)\<close> and
  \<^verbatim>\<open>cv2.putText(img, f"{obj_name} ({score:.2f})", org, FONT_HERSHEY_SIMPLEX, 0.6, color, 1)\<close>,
  the text kept as the name and the score it is formatted from. The annotated image is
  the copy of the input together with the calls made on it, in order.
\<close>

datatype draw_call =
  Rectangle "int \<times> int" "int \<times> int" bgr nat
  | PutText string rat "int \<times> int" bgr

type_synonym annotated = "image \<times> draw_call list"

definition get_score :: "detection \<Rightarrow> rat" where
  "get_score obj = (case score obj of None \<Rightarrow> 1 | Some s \<Rightarrow> s)"

text \<open>\<^verbatim>\<open>str.lower()\<close> on the ASCII letters.\<close>

definition lower_char :: "char \<Rightarrow> char" where
  "lower_char c =
     (let n = (of_char c :: nat) in if 65 \<le> n \<and> n \<le> 90 then char_of (n + 32) else c)"

definition str_lower :: "string \<Rightarrow> string" where
  "str_lower s = map lower_char s"

definition is_mold :: "string \<Rightarrow> bool" where
  "is_mold obj_name = (str_lower obj_name \<in> set [''mold'', ''mould'', ''bread_mold'', ''jamur''])"

text \<open>The confidence test: \<^verbatim>\<open>if score < confidence_threshold: continue\<close>.\<close>

definition skipped :: "rat \<Rightarrow> detection \<Rightarrow> bool" where
  "skipped confidence_threshold obj = (get_score obj < confidence_threshold)"

text \<open>The box clipped to the image, and the test that guards the drawing.\<close>

definition clip_box :: "nat \<Rightarrow> nat \<Rightarrow> int \<times> int \<times> int \<times> int \<Rightarrow> int \<times> int \<times> int \<times> int" where
  "clip_box h w box =
     (case box of (xmin, ymin, xmax, ymax) \<Rightarrow>
        (max 0 xmin, max 0 ymin, min (int w - 1) xmax, min (int h - 1) ymax))"

definition valid_box :: "int \<times> int \<times> int \<times> int \<Rightarrow> bool" where
  "valid_box box = (case box of (xmin, ymin, xmax, ymax) \<Rightarrow> xmin < xmax \<and> ymin < ymax)"

text \<open>One pass of the loop body over the calls made so far and \<^verbatim>\<open>mold_detected\<close>.\<close>

definition draw_one ::
    "nat \<Rightarrow> nat \<Rightarrow> rat \<Rightarrow> detection \<Rightarrow> draw_call list \<times> bool \<Rightarrow> draw_call list \<times> bool" where
  "draw_one h w confidence_threshold obj st =
     (case st of (calls, mold_detected) \<Rightarrow>
        if skipped confidence_threshold obj then (calls, mold_detected)
        else
          let mold_detected' = (if is_mold (name obj) then True else mold_detected);
              box_color = (if is_mold (name obj) then (0, 0, 255) else (0, 255, 0));
              text_color = (if is_mold (name obj) then (0, 0, 255) else (0, 255, 0))
          in (case clip_box h w (bbox obj) of (xmin, ymin, xmax, ymax) \<Rightarrow>
               if xmin < xmax \<and> ymin < ymax
               then (calls @
                      [Rectangle (xmin, ymin) (xmax, ymax) box_color 2,
                       PutText (name obj) (get_score obj)
                         (xmin, if ymin - 5 > 10 then ymin - 5 else ymin + 15) text_color],
                     mold_detected')
               else (calls, mold_detected')))"

definition draw_detections_and_classify ::
    "image \<Rightarrow> detection list \<Rightarrow> rat \<Rightarrow> annotated \<times> kualitas" where
  "draw_detections_and_classify img_original detection_results confidence_threshold =
     (if detection_results = [] then ((img_original, []), SEGAR)
      else
        (case fold (draw_one (img_h img_original) (img_w img_original) confidence_threshold)
                detection_results ([], False) of
           (calls, mold_detected) \<Rightarrow>
             ((img_original, calls), if mold_detected then BERJAMUR else SEGAR)))"

text \<open>
  What one detection adds to the drawing, and whether it sets \<^verbatim>\<open>mold_detected\<close>: the loop
  body run on its own.
\<close>

definition calls_of :: "nat \<Rightarrow> nat \<Rightarrow> rat \<Rightarrow> detection \<Rightarrow> draw_call list" where
  "calls_of h w confidence_threshold obj =
     fst (draw_one h w confidence_threshold obj ([], False))"

definition counts_as_mold :: "rat \<Rightarrow> detection \<Rightarrow> bool" where
  "counts_as_mold confidence_threshold obj =
     (\<not> skipped confidence_threshold obj \<and> is_mold (name obj))"

section \<open>Properties of the verdict and of the drawing\<close>

lemma draw_one_acc:
  "draw_one h w t obj (calls, m) = (calls @ calls_of h w t obj, m \<or> counts_as_mold t obj)"
  by (auto simp: draw_one_def calls_of_def counts_as_mold_def Let_def split: prod.splits)

lemma fold_draw_one:
  "fold (draw_one h w t) dets (calls, m)
     = (calls @ concat (map (calls_of h w t) dets), m \<or> (\<exists>d \<in> set dets. counts_as_mold t d))"
proof (induction dets arbitrary: calls m)
  case Nil
  then show ?case by simp
next
  case (Cons d dets)
  show ?case
    by (simp only: fold_simps draw_one_acc Cons.IH) auto
qed

lemma classify_result:
  "draw_detections_and_classify img dets t
     = ((img, concat (map (calls_of (img_h img) (img_w img) t) dets)),
        if (\<exists>d \<in> set dets. counts_as_mold t d) then BERJAMUR else SEGAR)"
  by (simp add: draw_detections_and_classify_def fold_draw_one)

lemma calls_of_skipped: "skipped t d \<Longrightarrow> calls_of h w t d = []"
  by (simp add: calls_of_def draw_one_def)

lemma calls_of_degenerate: "\<not> valid_box (clip_box h w (bbox d)) \<Longrightarrow> calls_of h w t d = []"
  by (auto simp: calls_of_def draw_one_def valid_box_def Let_def split: prod.splits)

lemma concat_map_filter_nil:
  "(\<And>x. x \<in> set xs \<Longrightarrow> \<not> P x \<Longrightarrow> f x = []) \<Longrightarrow> concat (map f (filter P xs)) = concat (map f xs)"
  by (induction xs) auto

lemma classify_filter_accepted:
  "draw_detections_and_classify img (filter (\<lambda>d. \<not> skipped t d) dets) t
     = draw_detections_and_classify img dets t"
proof -
  have "concat (map (calls_of (img_h img) (img_w img) t) (filter (\<lambda>d. \<not> skipped t d) dets))
      = concat (map (calls_of (img_h img) (img_w img) t) dets)"
    by (rule concat_map_filter_nil) (simp add: calls_of_skipped)
  moreover have "(\<exists>d \<in> set (filter (\<lambda>d. \<not> skipped t d) dets). counts_as_mold t d)
      \<longleftrightarrow> (\<exists>d \<in> set dets. counts_as_mold t d)"
    by (auto simp: counts_as_mold_def)
  ultimately show ?thesis by (simp only: classify_result)
qed

lemma classify_calls_valid_only:
  "snd (fst (draw_detections_and_classify img
        (filter (\<lambda>d. valid_box (clip_box (img_h img) (img_w img) (bbox d))) dets) t))
     = snd (fst (draw_detections_and_classify img dets t))"
proof -
  have "concat (map (calls_of (img_h img) (img_w img) t)
           (filter (\<lambda>d. valid_box (clip_box (img_h img) (img_w img) (bbox d))) dets))
      = concat (map (calls_of (img_h img) (img_w img) t) dets)"
    by (rule concat_map_filter_nil) (simp add: calls_of_degenerate)
  then show ?thesis by (simp add: classify_result)
qed

text \<open>
  C1. With no detection the result is the copy of the image with nothing drawn and the
  verdict SEGAR (fresh). In every case the verdict is BERJAMUR (moldy) exactly when some
  detection has a score of at least the threshold and a name that, in lower case, is one
  of the mold words, and SEGAR otherwise; detections below the threshold change neither
  the drawing nor the verdict: the result is that of the list without them.
\<close>

theorem verdict_iff_accepted_mold:
  "(dets = [] \<longrightarrow> draw_detections_and_classify img dets t = ((img, []), SEGAR))
   \<and> (snd (draw_detections_and_classify img dets t) = BERJAMUR
        \<longleftrightarrow> (\<exists>d \<in> set dets. t \<le> get_score d \<and> is_mold (name d)))
   \<and> (snd (draw_detections_and_classify img dets t) = SEGAR
        \<longleftrightarrow> \<not> (\<exists>d \<in> set dets. t \<le> get_score d \<and> is_mold (name d)))
   \<and> draw_detections_and_classify img dets t
        = draw_detections_and_classify img (filter (\<lambda>d. t \<le> get_score d) dets) t"
proof (intro conjI impI)
  assume "dets = []"
  then show "draw_detections_and_classify img dets t = ((img, []), SEGAR)"
    by (simp add: draw_detections_and_classify_def)
next
  show "snd (draw_detections_and_classify img dets t) = BERJAMUR
        \<longleftrightarrow> (\<exists>d \<in> set dets. t \<le> get_score d \<and> is_mold (name d))"
    by (simp add: classify_result counts_as_mold_def skipped_def not_less)
next
  show "snd (draw_detections_and_classify img dets t) = SEGAR
        \<longleftrightarrow> \<not> (\<exists>d \<in> set dets. t \<le> get_score d \<and> is_mold (name d))"
    by (simp add: classify_result counts_as_mold_def skipped_def not_less)
next
  have "(\<lambda>d. t \<le> get_score d) = (\<lambda>d. \<not> skipped t d)"
    by (simp add: skipped_def not_less)
  then show "draw_detections_and_classify img dets t
        = draw_detections_and_classify img (filter (\<lambda>d. t \<le> get_score d) dets) t"
    by (simp only: classify_filter_accepted)
qed

theorem verdict_iff_accepted_mold_witness:
  "draw_detections_and_classify (Color [[(1, 2, 3), (1, 2, 3), (1, 2, 3), (1, 2, 3)], [(1, 2, 3), (1, 2, 3), (1, 2, 3), (1, 2, 3)],
            [(1, 2, 3), (1, 2, 3), (1, 2, 3), (1, 2, 3)]]) [] (1 / 2) = ((Color [[(1, 2, 3), (1, 2, 3), (1, 2, 3), (1, 2, 3)], [(1, 2, 3), (1, 2, 3), (1, 2, 3), (1, 2, 3)],
            [(1, 2, 3), (1, 2, 3), (1, 2, 3), (1, 2, 3)]], []), SEGAR)
   \<and> draw_detections_and_classify (Color [[(1, 2, 3), (1, 2, 3), (1, 2, 3), (1, 2, 3)], [(1, 2, 3), (1, 2, 3), (1, 2, 3), (1, 2, 3)],
            [(1, 2, 3), (1, 2, 3), (1, 2, 3), (1, 2, 3)]])
        [\<lparr>name = ''Mold'', bbox = (-10, -10, 14, 13), score = Some (9 / 10)\<rparr>,
         \<lparr>name = ''crust'', bbox = (1, 1, 2, 2), score = Some (95 / 100)\<rparr>,
         \<lparr>name = ''mold'', bbox = (1, 0, 3, 2), score = Some (3 / 10)\<rparr>] (1 / 2)
      = ((Color [[(1, 2, 3), (1, 2, 3), (1, 2, 3), (1, 2, 3)], [(1, 2, 3), (1, 2, 3), (1, 2, 3), (1, 2, 3)],
            [(1, 2, 3), (1, 2, 3), (1, 2, 3), (1, 2, 3)]],
          [Rectangle (0, 0) (3, 2) (0, 0, 255) 2, PutText ''Mold'' (9 / 10) (0, 15) (0, 0, 255),
           Rectangle (1, 1) (2, 2) (0, 255, 0) 2, PutText ''crust'' (95 / 100) (1, 16) (0, 255, 0)]),
         BERJAMUR)
   \<and> draw_detections_and_classify (Color [[(1, 2, 3), (1, 2, 3), (1, 2, 3), (1, 2, 3)], [(1, 2, 3), (1, 2, 3), (1, 2, 3), (1, 2, 3)],
            [(1, 2, 3), (1, 2, 3), (1, 2, 3), (1, 2, 3)]])
        [\<lparr>name = ''mold'', bbox = (1, 0, 3, 2), score = Some (3 / 10)\<rparr>] (1 / 2)
      = ((Color [[(1, 2, 3), (1, 2, 3), (1, 2, 3), (1, 2, 3)], [(1, 2, 3), (1, 2, 3), (1, 2, 3), (1, 2, 3)],
            [(1, 2, 3), (1, 2, 3), (1, 2, 3), (1, 2, 3)]], []), SEGAR)"
  using verdict_iff_accepted_mold [of "[]" "Color [[(1, 2, 3), (1, 2, 3), (1, 2, 3), (1, 2, 3)], [(1, 2, 3), (1, 2, 3), (1, 2, 3), (1, 2, 3)],
            [(1, 2, 3), (1, 2, 3), (1, 2, 3), (1, 2, 3)]]" "1 / 2"]
    verdict_iff_accepted_mold
      [of "[\<lparr>name = ''Mold'', bbox = (-10, -10, 14, 13), score = Some (9 / 10)\<rparr>,
            \<lparr>name = ''crust'', bbox = (1, 1, 2, 2), score = Some (95 / 100)\<rparr>,
            \<lparr>name = ''mold'', bbox = (1, 0, 3, 2), score = Some (3 / 10)\<rparr>]"
          "Color [[(1, 2, 3), (1, 2, 3), (1, 2, 3), (1, 2, 3)], [(1, 2, 3), (1, 2, 3), (1, 2, 3), (1, 2, 3)],
            [(1, 2, 3), (1, 2, 3), (1, 2, 3), (1, 2, 3)]]" "1 / 2"]
    verdict_iff_accepted_mold
      [of "[\<lparr>name = ''mold'', bbox = (1, 0, 3, 2), score = Some (3 / 10)\<rparr>]" "Color [[(1, 2, 3), (1, 2, 3), (1, 2, 3), (1, 2, 3)], [(1, 2, 3), (1, 2, 3), (1, 2, 3), (1, 2, 3)],
            [(1, 2, 3), (1, 2, 3), (1, 2, 3), (1, 2, 3)]]" "1 / 2"]
  by code_simp

text \<open>
  C3, as the specification words it, fails in its last part: \<^verbatim>\<open>mold_detected\<close> is set before
  the box is clipped and tested. On a 2 by 2 image a detection named \<open>mold\<close> with score 0.9
  and box \<open>(5, 0, 9, 1)\<close> clips to \<open>(5, 0, 1, 1)\<close>, is not drawn, and the verdict is BERJAMUR
  although no other detection exists.
\<close>

theorem degenerate_mold_counterexample:
  "\<not> valid_box (clip_box 2 2 (5, 0, 9, 1))
   \<and> draw_detections_and_classify (Color [[(1, 2, 3), (1, 2, 3)], [(1, 2, 3), (1, 2, 3)]])
        [\<lparr>name = ''mold'', bbox = (5, 0, 9, 1), score = Some (9 / 10)\<rparr>] (1 / 2)
      = ((Color [[(1, 2, 3), (1, 2, 3)], [(1, 2, 3), (1, 2, 3)]], []), BERJAMUR)"
  by (simp add: draw_detections_and_classify_def draw_one_def skipped_def get_score_def
      is_mold_def str_lower_def lower_char_def clip_box_def valid_box_def grid_h_def grid_w_def)

text \<open>
  C3, amended. A detection whose clipped box has \<open>xmin \<ge> xmax\<close> or \<open>ymin \<ge> ymax\<close> is not
  drawn: the calls made on the image are those of the list without such detections. It
  still counts for the verdict: if it passes the confidence test and its name is a mold
  word, the verdict is BERJAMUR.
\<close>

theorem degenerate_box_not_drawn:
  "snd (fst (draw_detections_and_classify img dets t))
     = snd (fst (draw_detections_and_classify img
         (filter (\<lambda>d. valid_box (clip_box (img_h img) (img_w img) (bbox d))) dets) t))
   \<and> (\<forall>d \<in> set dets.
         \<not> valid_box (clip_box (img_h img) (img_w img) (bbox d))
         \<and> t \<le> get_score d \<and> is_mold (name d)
         \<longrightarrow> snd (draw_detections_and_classify img dets t) = BERJAMUR)"
proof (intro conjI ballI impI)
  show "snd (fst (draw_detections_and_classify img dets t))
     = snd (fst (draw_detections_and_classify img
         (filter (\<lambda>d. valid_box (clip_box (img_h img) (img_w img) (bbox d))) dets) t))"
    by (simp only: classify_calls_valid_only)
next
  fix d
  assume d: "d \<in> set dets"
    and "\<not> valid_box (clip_box (img_h img) (img_w img) (bbox d))
         \<and> t \<le> get_score d \<and> is_mold (name d)"
  then have "counts_as_mold t d"
    by (simp add: counts_as_mold_def skipped_def not_less)
  with d have "\<exists>d \<in> set dets. counts_as_mold t d" by blast
  then show "snd (draw_detections_and_classify img dets t) = BERJAMUR"
    by (simp add: classify_result)
qed

theorem degenerate_box_not_drawn_witness:
  "draw_detections_and_classify (Color [[(1, 2, 3), (1, 2, 3), (1, 2, 3), (1, 2, 3)], [(1, 2, 3), (1, 2, 3), (1, 2, 3), (1, 2, 3)],
            [(1, 2, 3), (1, 2, 3), (1, 2, 3), (1, 2, 3)]])
        [\<lparr>name = ''mold'', bbox = (5, 0, 9, 0), score = Some (9 / 10)\<rparr>,
         \<lparr>name = ''crust'', bbox = (1, 1, 2, 2), score = Some (95 / 100)\<rparr>] (1 / 2)
      = ((Color [[(1, 2, 3), (1, 2, 3), (1, 2, 3), (1, 2, 3)], [(1, 2, 3), (1, 2, 3), (1, 2, 3), (1, 2, 3)],
            [(1, 2, 3), (1, 2, 3), (1, 2, 3), (1, 2, 3)]],
          [Rectangle (1, 1) (2, 2) (0, 255, 0) 2, PutText ''crust'' (95 / 100) (1, 16) (0, 255, 0)]),
         BERJAMUR)"
  using degenerate_box_not_drawn
      [of "Color [[(1, 2, 3), (1, 2, 3), (1, 2, 3), (1, 2, 3)], [(1, 2, 3), (1, 2, 3), (1, 2, 3), (1, 2, 3)],
            [(1, 2, 3), (1, 2, 3), (1, 2, 3), (1, 2, 3)]]"
          "[\<lparr>name = ''mold'', bbox = (5, 0, 9, 0), score = Some (9 / 10)\<rparr>,
            \<lparr>name = ''crust'', bbox = (1, 1, 2, 2), score = Some (95 / 100)\<rparr>]" "1 / 2"]
  by code_simp

text \<open>
  C10. A detection without a \<^verbatim>\<open>'score'\<close> entry gets the score 1.0; for every threshold in
  \<open>[0, 1]\<close> it passes the confidence test, and if its name is a mold word the verdict of any
  list that holds it is BERJAMUR.
\<close>

theorem missing_score_is_one:
  assumes ns: "score d = None" and t0: "0 \<le> t" and t1: "t \<le> 1" and d: "d \<in> set dets"
  shows "get_score d = 1 \<and> \<not> skipped t d
       \<and> (is_mold (name d) \<longrightarrow> snd (draw_detections_and_classify img dets t) = BERJAMUR)"
proof (intro conjI impI)
  show g: "get_score d = 1" using ns by (simp add: get_score_def)
  show s: "\<not> skipped t d" using g t1 by (simp add: skipped_def)
  assume "is_mold (name d)"
  with s have "counts_as_mold t d" by (simp add: counts_as_mold_def)
  with d have "\<exists>d \<in> set dets. counts_as_mold t d" by blast
  then show "snd (draw_detections_and_classify img dets t) = BERJAMUR"
    by (simp add: classify_result)
qed

theorem missing_score_is_one_witness:
  "get_score \<lparr>name = ''jamur'', bbox = (0, 0, 3, 2), score = None\<rparr> = 1
   \<and> \<not> skipped 1 \<lparr>name = ''jamur'', bbox = (0, 0, 3, 2), score = None\<rparr>
   \<and> draw_detections_and_classify (Color [[(1, 2, 3), (1, 2, 3), (1, 2, 3), (1, 2, 3)], [(1, 2, 3), (1, 2, 3), (1, 2, 3), (1, 2, 3)],
            [(1, 2, 3), (1, 2, 3), (1, 2, 3), (1, 2, 3)]])
        [\<lparr>name = ''crust'', bbox = (1, 1, 2, 2), score = Some (95 / 100)\<rparr>,
         \<lparr>name = ''jamur'', bbox = (0, 0, 3, 2), score = None\<rparr>] 1
      = ((Color [[(1, 2, 3), (1, 2, 3), (1, 2, 3), (1, 2, 3)], [(1, 2, 3), (1, 2, 3), (1, 2, 3), (1, 2, 3)],
            [(1, 2, 3), (1, 2, 3), (1, 2, 3), (1, 2, 3)]],
          [Rectangle (0, 0) (3, 2) (0, 0, 255) 2, PutText ''jamur'' 1 (0, 15) (0, 0, 255)]),
         BERJAMUR)"
proof -
  let ?d = "\<lparr>name = ''jamur'', bbox = (0, 0, 3, 2), score = None\<rparr>"
  let ?dets = "[\<lparr>name = ''crust'', bbox = (1, 1, 2, 2), score = Some (95 / 100)\<rparr>, ?d]"
  have h: "score ?d = None" "(0::rat) \<le> 1" "(1::rat) \<le> 1" "?d \<in> set ?dets"
    by simp_all
  have m: "is_mold (name ?d)"
    by (simp add: is_mold_def str_lower_def lower_char_def)
  from missing_score_is_one [OF h] m
  have g: "get_score ?d = 1" and k: "\<not> skipped 1 ?d"
    and v: "snd (draw_detections_and_classify (Color [[(1, 2, 3), (1, 2, 3), (1, 2, 3), (1, 2, 3)], [(1, 2, 3), (1, 2, 3), (1, 2, 3), (1, 2, 3)],
            [(1, 2, 3), (1, 2, 3), (1, 2, 3), (1, 2, 3)]]) ?dets 1) = BERJAMUR"
    by simp_all
  have c: "fst (draw_detections_and_classify (Color [[(1, 2, 3), (1, 2, 3), (1, 2, 3), (1, 2, 3)], [(1, 2, 3), (1, 2, 3), (1, 2, 3), (1, 2, 3)],
            [(1, 2, 3), (1, 2, 3), (1, 2, 3), (1, 2, 3)]]) ?dets 1)
      = (Color [[(1, 2, 3), (1, 2, 3), (1, 2, 3), (1, 2, 3)], [(1, 2, 3), (1, 2, 3), (1, 2, 3), (1, 2, 3)],
            [(1, 2, 3), (1, 2, 3), (1, 2, 3), (1, 2, 3)]],
         [Rectangle (0, 0) (3, 2) (0, 0, 255) 2, PutText ''jamur'' 1 (0, 15) (0, 0, 255)])"
    by code_simp
  from g k v c show ?thesis
    by (simp add: prod_eq_iff)
qed

section \<open>The window: \<^verbatim>\<open>MainApp\<close> and its actions\<close>

text \<open>
  The instance fields that hold the pipeline state, the loaded detector (\<open>True\<close> when
  \<^verbatim>\<open>detection_model\<close> is not \<open>None\<close>) and the enabled flag of each button. An action runs
  to its end before the next one starts. What an action shows to the user (message box,
  status text) is returned as a report; drawing an image on a label changes no field.
  An exception that leaves an action (\<open>Inl\<close>) ends the run: it has no successor state.
\<close>

record app_state =
  current_step :: nat
  current_image_original :: "image option"
  current_image_processed :: "image option"
  current_image_hsv_mask :: "gray option"
  current_image_morphed_mask :: "gray option"
  current_image_detection :: "annotated option"
  current_image_path :: "string option"
  detection_model :: bool
  btn_pilih_gambar :: bool
  btn_proses_contrast :: bool
  btn_proses_hsv :: bool
  btn_proses_morphology :: bool
  btn_deteksi_jamur :: bool
  btn_reset_aplikasi :: bool

datatype report =
  StepDone | NeedEarlierStep | EmptyMask | ModelNotReady | ProcessingFailed
  | LoadFailed | Cancelled | DetectionError

definition count_nonzero :: "gray \<Rightarrow> nat" where
  "count_nonzero m = length (filter (\<lambda>v. v \<noteq> 0) (concat m))"

definition set_button_states :: "nat \<Rightarrow> app_state \<Rightarrow> app_state" where
  "set_button_states step s =
     s\<lparr>btn_pilih_gambar := (step = 0),
       btn_proses_contrast := (step = 1),
       btn_proses_hsv := (step = 2),
       btn_proses_morphology :=
         (step \<ge> 3 \<and> (case current_image_hsv_mask s of None \<Rightarrow> False
                        | Some m \<Rightarrow> count_nonzero m > 0)),
       btn_deteksi_jamur :=
         ((step \<ge> 3 \<or> current_image_morphed_mask s \<noteq> None) \<and> detection_model s),
       btn_reset_aplikasi := (step \<ge> 1)\<rparr>"

text \<open>
  \<^verbatim>\<open>__init__\<close>: the fields are cleared, \<^verbatim>\<open>initUI\<close> sets the buttons for step 0, then the
  detector is loaded (or not).
\<close>

definition init_state :: "bool \<Rightarrow> app_state" where
  "init_state loaded =
     (set_button_states 0
        \<lparr>current_step = 0, current_image_original = None, current_image_processed = None,
         current_image_hsv_mask = None, current_image_morphed_mask = None,
         current_image_detection = None, current_image_path = None,
         detection_model = False,
         btn_pilih_gambar = True, btn_proses_contrast = True, btn_proses_hsv = True,
         btn_proses_morphology = True, btn_deteksi_jamur = True, btn_reset_aplikasi = True\<rparr>)
     \<lparr>detection_model := loaded\<rparr>"

text \<open>
  Step 1. The file dialog gives \<open>file_name\<close> (empty when cancelled) and \<^verbatim>\<open>cv2.imread\<close> gives
  \<open>decoded\<close> (\<open>None\<close> when the file cannot be read).
\<close>

definition action_step1_pilih_gambar ::
    "string \<Rightarrow> image option \<Rightarrow> app_state \<Rightarrow> py_error + report \<times> app_state" where
  "action_step1_pilih_gambar file_name decoded s =
     (if file_name \<noteq> [] then
        (let s1 = s\<lparr>current_image_path := Some file_name, current_image_original := decoded\<rparr>
         in case decoded of
              Some im \<Rightarrow>
                (case to_bgr im of Inl e \<Rightarrow> Inl e
                 | Inr bgr \<Rightarrow>
                     let s2 = s1\<lparr>current_image_original := Some (Color bgr),
                                 current_image_processed := None,
                                 current_image_hsv_mask := None,
                                 current_image_morphed_mask := None,
                                 current_image_detection := None,
                                 current_step := 1\<rparr>
                     in Inr (StepDone, set_button_states 1 s2))
            | None \<Rightarrow> Inr (LoadFailed, set_button_states 0 (s1\<lparr>current_step := 0\<rparr>)))
      else if current_image_original s = None
           then Inr (Cancelled, set_button_states 0 (s\<lparr>current_step := 0\<rparr>))
           else Inr (Cancelled, s))"

text \<open>Step 2: contrast stretching of the original image.\<close>

definition action_step2_perbaiki_kualitas ::
    "colorspaces \<Rightarrow> app_state \<Rightarrow> py_error + report \<times> app_state" where
  "action_step2_perbaiki_kualitas cv s =
     (if current_image_original s = None then Inr (NeedEarlierStep, s)
      else
        (case enhance_contrast_stretching cv (current_image_original s) of
           Inl e \<Rightarrow> Inl e
         | Inr None \<Rightarrow> Inr (ProcessingFailed, s)
         | Inr (Some enhanced_img) \<Rightarrow>
             let s1 = s\<lparr>current_image_processed := Some enhanced_img, current_step := 2\<rparr>;
                 s2 = set_button_states 2 s1
             in Inr (StepDone,
                     s2\<lparr>current_image_hsv_mask := None,
                        current_image_morphed_mask := None,
                        current_image_detection := None\<rparr>)))"

text \<open>Step 3: HSV thresholding of the processed image, with the bounds of the source.\<close>

definition lower_hsv :: bounds where
  "lower_hsv = (40, 50, 30)"

definition upper_hsv :: bounds where
  "upper_hsv = (100, 255, 200)"

definition action_step3_hsv_threshold ::
    "colorspaces \<Rightarrow> app_state \<Rightarrow> py_error + report \<times> app_state" where
  "action_step3_hsv_threshold cv s =
     (if current_image_processed s = None then Inr (NeedEarlierStep, s)
      else
        (case apply_hsv_threshold cv (current_image_processed s) lower_hsv upper_hsv of
           Inl e \<Rightarrow> Inl e
         | Inr None \<Rightarrow> Inr (ProcessingFailed, s)
         | Inr (Some m) \<Rightarrow>
             let s1 = s\<lparr>current_image_hsv_mask := Some m,
                        current_image_morphed_mask := None,
                        current_step := 3\<rparr>;
                 s2 = set_button_states 3 s1
             in Inr (StepDone, s2\<lparr>current_image_detection := None\<rparr>)))"

text \<open>
  Step 4: one of the four operations, always on the HSV mask. The two guards come first:
  no mask yet, and a mask without a non-zero pixel.
\<close>

definition apply_and_display_morphology ::
    "(gray option \<Rightarrow> py_error + gray option) \<Rightarrow> app_state \<Rightarrow> py_error + report \<times> app_state" where
  "apply_and_display_morphology morph_func s =
     (case current_image_hsv_mask s of
        None \<Rightarrow> Inr (NeedEarlierStep, s)
      | Some m \<Rightarrow>
          if count_nonzero m = 0 then Inr (EmptyMask, s)
          else
            (case morph_func (Some m) of
               Inl e \<Rightarrow> Inl e
             | Inr None \<Rightarrow> Inr (ProcessingFailed, s)
             | Inr (Some morphed_mask) \<Rightarrow>
                 let s1 = s\<lparr>current_image_morphed_mask := Some morphed_mask\<rparr>;
                     s2 = set_button_states (current_step s1) s1
                 in Inr (StepDone, s2\<lparr>current_image_detection := None\<rparr>)))"

definition action_morphology_erode :: "app_state \<Rightarrow> py_error + report \<times> app_state" where
  "action_morphology_erode s =
     apply_and_display_morphology (\<lambda>m. apply_morphology_erode m DEFAULT_KERNEL_SIZE) s"

definition action_morphology_dilate :: "app_state \<Rightarrow> py_error + report \<times> app_state" where
  "action_morphology_dilate s =
     apply_and_display_morphology (\<lambda>m. apply_morphology_dilate m DEFAULT_KERNEL_SIZE) s"

definition action_morphology_opening :: "app_state \<Rightarrow> py_error + report \<times> app_state" where
  "action_morphology_opening s =
     apply_and_display_morphology (\<lambda>m. apply_morphology_open m DEFAULT_KERNEL_SIZE) s"

definition action_morphology_closing :: "app_state \<Rightarrow> py_error + report \<times> app_state" where
  "action_morphology_closing s =
     apply_and_display_morphology (\<lambda>m. apply_morphology_close m DEFAULT_KERNEL_SIZE) s"

text \<open>
  Step 5. The image given to the detector is the processed one, or else the original.
  \<open>detected\<close> is what the \<^verbatim>\<open>try\<close> block obtains from the detector: the list of detections,
  or an exception, which the \<^verbatim>\<open>except\<close> clause turns into a report.
\<close>

definition img_to_process_for_yolo :: "app_state \<Rightarrow> image option" where
  "img_to_process_for_yolo s =
     (if current_image_processed s \<noteq> None then current_image_processed s
      else current_image_original s)"

definition action_step5_deteksi_dan_klasifikasi ::
    "py_error + detection list \<Rightarrow> app_state \<Rightarrow> py_error + report \<times> app_state" where
  "action_step5_deteksi_dan_klasifikasi detected s =
     (case img_to_process_for_yolo s of
        None \<Rightarrow> Inr (NeedEarlierStep, s)
      | Some img \<Rightarrow>
          if \<not> detection_model s then Inr (ModelNotReady, s)
          else
            (case detected of
               Inl e \<Rightarrow> Inr (DetectionError, s)
             | Inr detected_objects \<Rightarrow>
                 (case draw_detections_and_classify img detected_objects (1 / 2) of
                    (img_with_detection, kualitas_roti) \<Rightarrow>
                      let s1 = s\<lparr>current_image_detection := Some img_with_detection,
                                 current_step := 5\<rparr>
                      in Inr (StepDone, set_button_states 5 s1))))"

text \<open>Step 6: reset.\<close>

definition action_step6_reset_aplikasi :: "app_state \<Rightarrow> py_error + report \<times> app_state" where
  "action_step6_reset_aplikasi s =
     Inr (StepDone,
          set_button_states 0
            (s\<lparr>current_image_original := None, current_image_processed := None,
               current_image_hsv_mask := None, current_image_morphed_mask := None,
               current_image_detection := None, current_image_path := None,
               current_step := 0\<rparr>))"

text \<open>
  What the user can do: click a button (the morphology button opens the menu of the four
  operations). A click reaches its action only while the button is enabled.
\<close>

datatype event =
  Pilih string "image option"
  | Contrast
  | Hsv
  | Morph morph_type
  | Deteksi "py_error + detection list"
  | Reset

fun enabled :: "event \<Rightarrow> app_state \<Rightarrow> bool" where
  "enabled (Pilih f d) s = btn_pilih_gambar s"
| "enabled Contrast s = btn_proses_contrast s"
| "enabled Hsv s = btn_proses_hsv s"
| "enabled (Morph op) s = btn_proses_morphology s"
| "enabled (Deteksi r) s = btn_deteksi_jamur s"
| "enabled Reset s = btn_reset_aplikasi s"

fun fire :: "colorspaces \<Rightarrow> event \<Rightarrow> app_state \<Rightarrow> py_error + report \<times> app_state" where
  "fire cv (Pilih f d) s = action_step1_pilih_gambar f d s"
| "fire cv Contrast s = action_step2_perbaiki_kualitas cv s"
| "fire cv Hsv s = action_step3_hsv_threshold cv s"
| "fire cv (Morph MORPH_ERODE) s = action_morphology_erode s"
| "fire cv (Morph MORPH_DILATE) s = action_morphology_dilate s"
| "fire cv (Morph MORPH_OPEN) s = action_morphology_opening s"
| "fire cv (Morph MORPH_CLOSE) s = action_morphology_closing s"
| "fire cv (Deteksi r) s = action_step5_deteksi_dan_klasifikasi r s"
| "fire cv Reset s = action_step6_reset_aplikasi s"

inductive reachable :: "colorspaces \<Rightarrow> app_state \<Rightarrow> bool" for cv :: colorspaces where
  start: "reachable cv (init_state loaded)"
| click: "reachable cv s \<Longrightarrow> enabled e s \<Longrightarrow> fire cv e s = Inr (r, s') \<Longrightarrow> reachable cv s'"

text \<open>
  A cached output is current when it is what its stage computes from the upstream value
  now in the state: the processed image from the original, the HSV mask from the processed
  image, the morphed mask from the HSV mask by one of the four operations, the annotated
  image from the image the detector would be given.
\<close>

definition morph_of :: "morph_type \<Rightarrow> gray option \<Rightarrow> py_error + gray option" where
  "morph_of op m =
     (case op of
        MORPH_ERODE \<Rightarrow> apply_morphology_erode m DEFAULT_KERNEL_SIZE
      | MORPH_DILATE \<Rightarrow> apply_morphology_dilate m DEFAULT_KERNEL_SIZE
      | MORPH_OPEN \<Rightarrow> apply_morphology_open m DEFAULT_KERNEL_SIZE
      | MORPH_CLOSE \<Rightarrow> apply_morphology_close m DEFAULT_KERNEL_SIZE)"

definition processed_current :: "colorspaces \<Rightarrow> app_state \<Rightarrow> bool" where
  "processed_current cv s =
     (case current_image_processed s of None \<Rightarrow> True
      | Some p \<Rightarrow> enhance_contrast_stretching cv (current_image_original s) = Inr (Some p))"

definition hsv_mask_current :: "colorspaces \<Rightarrow> app_state \<Rightarrow> bool" where
  "hsv_mask_current cv s =
     (case current_image_hsv_mask s of None \<Rightarrow> True
      | Some m \<Rightarrow>
          apply_hsv_threshold cv (current_image_processed s) lower_hsv upper_hsv = Inr (Some m))"

definition morphed_mask_current :: "app_state \<Rightarrow> bool" where
  "morphed_mask_current s =
     (case current_image_morphed_mask s of None \<Rightarrow> True
      | Some mm \<Rightarrow>
          (\<exists>op. morph_of op (current_image_hsv_mask s) = Inr (Some mm)))"

definition detection_current :: "app_state \<Rightarrow> bool" where
  "detection_current s =
     (case current_image_detection s of None \<Rightarrow> True
      | Some a \<Rightarrow> img_to_process_for_yolo s = Some (fst a))"

definition no_stale_output :: "colorspaces \<Rightarrow> app_state \<Rightarrow> bool" where
  "no_stale_output cv s =
     (processed_current cv s \<and> hsv_mask_current cv s
      \<and> morphed_mask_current s \<and> detection_current s)"


text \<open>
  The facts that make the invariant inductive: the first button is enabled exactly at step
  0, the morphology button only from step 3 on, and at step 0 no stage output is cached.
\<close>

definition downstream_empty :: "app_state \<Rightarrow> bool" where
  "downstream_empty s =
     (current_image_processed s = None \<and> current_image_hsv_mask s = None
      \<and> current_image_morphed_mask s = None \<and> current_image_detection s = None)"

definition buttons_consistent :: "app_state \<Rightarrow> bool" where
  "buttons_consistent s =
     ((btn_pilih_gambar s \<longleftrightarrow> current_step s = 0)
      \<and> (if btn_proses_morphology s then 3 \<le> current_step s else True)
      \<and> (if current_step s = 0 then downstream_empty s else True))"

definition window_inv :: "colorspaces \<Rightarrow> app_state \<Rightarrow> bool" where
  "window_inv cv s = (no_stale_output cv s \<and> buttons_consistent s)"

text \<open>A sequence of clicks from a state; a click on a disabled button does nothing.\<close>

fun run :: "colorspaces \<Rightarrow> event list \<Rightarrow> app_state \<Rightarrow> py_error + app_state" where
  "run cv [] s = Inr s"
| "run cv (e # es) s =
     (if enabled e s
      then (case fire cv e s of Inl err \<Rightarrow> Inl err | Inr (r, s') \<Rightarrow> run cv es s')
      else run cv es s)"

section \<open>Properties of the window's state\<close>

lemma sbs_fields:
  "current_step (set_button_states n s) = current_step s"
  "current_image_original (set_button_states n s) = current_image_original s"
  "current_image_processed (set_button_states n s) = current_image_processed s"
  "current_image_hsv_mask (set_button_states n s) = current_image_hsv_mask s"
  "current_image_morphed_mask (set_button_states n s) = current_image_morphed_mask s"
  "current_image_detection (set_button_states n s) = current_image_detection s"
  "detection_model (set_button_states n s) = detection_model s"
  "btn_pilih_gambar (set_button_states n s) = (n = 0)"
  "btn_proses_morphology (set_button_states n s) =
     (n \<ge> 3 \<and> (case current_image_hsv_mask s of None \<Rightarrow> False | Some m \<Rightarrow> count_nonzero m > 0))"
  by (simp_all add: set_button_states_def)

lemma processed_current_iff:
  "processed_current cv s \<longleftrightarrow>
     (\<forall>p. current_image_processed s = Some p
          \<longrightarrow> enhance_contrast_stretching cv (current_image_original s) = Inr (Some p))"
  by (simp add: processed_current_def split: option.split)

lemma hsv_mask_current_iff:
  "hsv_mask_current cv s \<longleftrightarrow>
     (\<forall>m. current_image_hsv_mask s = Some m
          \<longrightarrow> apply_hsv_threshold cv (current_image_processed s) lower_hsv upper_hsv = Inr (Some m))"
  by (simp add: hsv_mask_current_def split: option.split)

lemma morphed_mask_current_iff:
  "morphed_mask_current s \<longleftrightarrow>
     (\<forall>mm. current_image_morphed_mask s = Some mm
          \<longrightarrow> (\<exists>op. morph_of op (current_image_hsv_mask s) = Inr (Some mm)))"
  by (simp add: morphed_mask_current_def split: option.split)

lemma detection_current_iff:
  "detection_current s \<longleftrightarrow>
     (\<forall>a. current_image_detection s = Some a
          \<longrightarrow> (if current_image_processed s \<noteq> None then current_image_processed s
               else current_image_original s) = Some (fst a))"
  by (simp add: detection_current_def img_to_process_for_yolo_def split: option.split)

lemmas no_stale_iff = no_stale_output_def processed_current_iff hsv_mask_current_iff
  morphed_mask_current_iff detection_current_iff

lemma sbs_no_stale: "no_stale_output cv (set_button_states n s) = no_stale_output cv s"
  by (simp add: no_stale_iff sbs_fields)

lemma sbs_downstream: "downstream_empty (set_button_states n s) = downstream_empty s"
  by (simp add: downstream_empty_def sbs_fields)

lemma buttons_consistent_sbs:
  "current_step s = n \<Longrightarrow> (n = 0 \<Longrightarrow> downstream_empty s) \<Longrightarrow> buttons_consistent (set_button_states n s)"
  by (simp add: buttons_consistent_def sbs_fields sbs_downstream)

lemma downstream_empty_no_stale: "downstream_empty s \<Longrightarrow> no_stale_output cv s"
  by (simp add: downstream_empty_def no_stale_iff)

lemma inv_sbs:
  "no_stale_output cv s \<Longrightarrow> current_step s = n \<Longrightarrow> (n = 0 \<Longrightarrow> downstream_empty s)
     \<Longrightarrow> window_inv cv (set_button_states n s)"
  by (simp add: window_inv_def sbs_no_stale buttons_consistent_sbs)

lemma inv_init: "window_inv cv (init_state loaded)"
proof -
  have "window_inv cv (set_button_states 0
        \<lparr>current_step = 0, current_image_original = None, current_image_processed = None,
         current_image_hsv_mask = None, current_image_morphed_mask = None,
         current_image_detection = None, current_image_path = None,
         detection_model = False,
         btn_pilih_gambar = True, btn_proses_contrast = True, btn_proses_hsv = True,
         btn_proses_morphology = True, btn_deteksi_jamur = True, btn_reset_aplikasi = True\<rparr>)"
    by (intro inv_sbs downstream_empty_no_stale) (simp_all add: downstream_empty_def)
  moreover have "window_inv cv (s\<lparr>detection_model := loaded\<rparr>) = window_inv cv s" for s
    by (simp add: window_inv_def buttons_consistent_def downstream_empty_def no_stale_iff)
  ultimately show ?thesis by (simp only: init_state_def)
qed

lemma inv_step6:
  assumes "action_step6_reset_aplikasi s = Inr (r, s')"
  shows "window_inv cv s'"
proof -
  have "window_inv cv (set_button_states 0
            (s\<lparr>current_image_original := None, current_image_processed := None,
               current_image_hsv_mask := None, current_image_morphed_mask := None,
               current_image_detection := None, current_image_path := None,
               current_step := 0\<rparr>))"
    by (intro inv_sbs downstream_empty_no_stale) (simp_all add: downstream_empty_def)
  with assms show ?thesis by (simp add: action_step6_reset_aplikasi_def)
qed

lemma inv_step2:
  assumes i: "window_inv cv s" and a: "action_step2_perbaiki_kualitas cv s = Inr (r, s')"
  shows "window_inv cv s'"
proof (cases "current_image_original s = None")
  case True
  with a i show ?thesis by (simp add: action_step2_perbaiki_kualitas_def)
next
  case False
  show ?thesis
  proof (cases "enhance_contrast_stretching cv (current_image_original s)")
    case (Inl e)
    with a False show ?thesis by (simp add: action_step2_perbaiki_kualitas_def)
  next
    case (Inr res)
    show ?thesis
    proof (cases res)
      case None
      with a i False Inr show ?thesis by (simp add: action_step2_perbaiki_kualitas_def)
    next
      case (Some e)
      with a False Inr have s': "s' = (set_button_states 2
              (s\<lparr>current_image_processed := Some e, current_step := 2\<rparr>))
                \<lparr>current_image_hsv_mask := None,
                 current_image_morphed_mask := None,
                 current_image_detection := None\<rparr>"
        by (simp add: action_step2_perbaiki_kualitas_def Let_def)
      have "no_stale_output cv s'"
        using Inr Some by (simp add: s' no_stale_iff sbs_fields)
      moreover have "buttons_consistent s'"
        by (simp add: s' buttons_consistent_def sbs_fields)
      ultimately show ?thesis by (simp add: window_inv_def)
    qed
  qed
qed

lemma buttons_consistent_step0: "buttons_consistent s \<Longrightarrow> btn_pilih_gambar s \<Longrightarrow> current_step s = 0 \<and> downstream_empty s"
  by (simp add: buttons_consistent_def split: if_splits)

lemma buttons_consistent_morph: "buttons_consistent s \<Longrightarrow> btn_proses_morphology s \<Longrightarrow> 3 \<le> current_step s"
  by (simp add: buttons_consistent_def split: if_splits)

lemma inv_step1:
  assumes i: "window_inv cv s" and b: "btn_pilih_gambar s"
    and a: "action_step1_pilih_gambar f d s = Inr (r, s')"
  shows "window_inv cv s'"
proof -
  from i b have de: "downstream_empty s" and st: "current_step s = 0"
    using buttons_consistent_step0 by (simp_all add: window_inv_def)
  show ?thesis
  proof (cases "f = []")
    case True
    show ?thesis
    proof (cases "current_image_original s = None")
      case True
      with \<open>f = []\<close> a have s': "s' = set_button_states 0 (s\<lparr>current_step := 0\<rparr>)"
        by (simp add: action_step1_pilih_gambar_def)
      have "downstream_empty (s\<lparr>current_step := 0\<rparr>)"
        using de by (simp add: downstream_empty_def)
      then show ?thesis
        unfolding s' by (intro inv_sbs downstream_empty_no_stale) simp_all
    next
      case False
      with \<open>f = []\<close> a i show ?thesis by (simp add: action_step1_pilih_gambar_def)
    qed
  next
    case False
    show ?thesis
    proof (cases d)
      case None
      with False a have s': "s' = set_button_states 0
          (s\<lparr>current_image_path := Some f, current_image_original := None, current_step := 0\<rparr>)"
        by (simp add: action_step1_pilih_gambar_def)
      have "downstream_empty
          (s\<lparr>current_image_path := Some f, current_image_original := None, current_step := 0\<rparr>)"
        using de by (simp add: downstream_empty_def)
      then show ?thesis
        unfolding s' by (intro inv_sbs downstream_empty_no_stale) simp_all
    next
      case (Some im)
      show ?thesis
      proof (cases "to_bgr im")
        case (Inl e)
        with False Some a show ?thesis by (simp add: action_step1_pilih_gambar_def)
      next
        case (Inr bgr)
        with False Some a have s': "s' = set_button_states 1
            (s\<lparr>current_image_path := Some f, current_image_original := Some (Color bgr),
               current_image_processed := None, current_image_hsv_mask := None,
               current_image_morphed_mask := None, current_image_detection := None,
               current_step := 1\<rparr>)"
          by (simp add: action_step1_pilih_gambar_def Let_def)
        show ?thesis
          unfolding s' by (intro inv_sbs downstream_empty_no_stale) (simp_all add: downstream_empty_def)
      qed
    qed
  qed
qed

lemma inv_step3:
  assumes i: "window_inv cv s" and a: "action_step3_hsv_threshold cv s = Inr (r, s')"
  shows "window_inv cv s'"
proof (cases "current_image_processed s = None")
  case True
  with a i show ?thesis by (simp add: action_step3_hsv_threshold_def)
next
  case False
  show ?thesis
  proof (cases "apply_hsv_threshold cv (current_image_processed s) lower_hsv upper_hsv")
    case (Inl e)
    with a False show ?thesis by (simp add: action_step3_hsv_threshold_def)
  next
    case (Inr res)
    show ?thesis
    proof (cases res)
      case None
      with a i False Inr show ?thesis by (simp add: action_step3_hsv_threshold_def)
    next
      case (Some m)
      with a False Inr have s': "s' = (set_button_states 3
              (s\<lparr>current_image_hsv_mask := Some m, current_image_morphed_mask := None,
                 current_step := 3\<rparr>))
                \<lparr>current_image_detection := None\<rparr>"
        by (simp add: action_step3_hsv_threshold_def Let_def)
      from i have "processed_current cv s" by (simp add: window_inv_def no_stale_output_def)
      then have "no_stale_output cv s'"
        using Inr Some by (simp add: s' no_stale_iff sbs_fields)
      moreover have "buttons_consistent s'"
        by (simp add: s' buttons_consistent_def sbs_fields)
      ultimately show ?thesis by (simp add: window_inv_def)
    qed
  qed
qed

lemma inv_morph:
  assumes i: "window_inv cv s" and b: "btn_proses_morphology s"
    and a: "apply_and_display_morphology (morph_of op) s = Inr (r, s')"
  shows "window_inv cv s'"
proof (cases "current_image_hsv_mask s")
  case None
  with a i show ?thesis by (simp add: apply_and_display_morphology_def)
next
  case (Some m)
  show ?thesis
  proof (cases "count_nonzero m = 0")
    case True
    with a i Some show ?thesis by (simp add: apply_and_display_morphology_def)
  next
    case False
    show ?thesis
    proof (cases "morph_of op (Some m)")
      case (Inl e)
      with a Some False show ?thesis by (simp add: apply_and_display_morphology_def)
    next
      case (Inr res)
      show ?thesis
      proof (cases res)
        case None
        with a i Some False Inr show ?thesis by (simp add: apply_and_display_morphology_def)
      next
        case mm: (Some morphed_mask)
        with a Some False Inr have s': "s' = (set_button_states (current_step s)
              (s\<lparr>current_image_morphed_mask := Some morphed_mask\<rparr>))
                \<lparr>current_image_detection := None\<rparr>"
          by (simp add: apply_and_display_morphology_def Let_def)
        from i have g: "buttons_consistent s" and p: "processed_current cv s" and h: "hsv_mask_current cv s"
          by (simp_all add: window_inv_def no_stale_output_def)
        from g b have st: "3 \<le> current_step s" by (rule buttons_consistent_morph)
        have "\<exists>op. morph_of op (Some m) = Inr (Some morphed_mask)"
          using Inr mm by blast
        then have "no_stale_output cv s'"
          using p h Some by (simp add: s' no_stale_iff sbs_fields)
        moreover have "buttons_consistent s'"
          using st by (simp add: s' buttons_consistent_def sbs_fields)
        ultimately show ?thesis by (simp add: window_inv_def)
      qed
    qed
  qed
qed

lemma inv_step5:
  assumes i: "window_inv cv s" and a: "action_step5_deteksi_dan_klasifikasi d s = Inr (r, s')"
  shows "window_inv cv s'"
proof (cases "img_to_process_for_yolo s")
  case None
  with a i show ?thesis by (simp add: action_step5_deteksi_dan_klasifikasi_def)
next
  case (Some img)
  show ?thesis
  proof (cases "detection_model s")
    case False
    with a i Some show ?thesis by (simp add: action_step5_deteksi_dan_klasifikasi_def)
  next
    case True
    show ?thesis
    proof (cases d)
      case (Inl e)
      with a i Some True show ?thesis by (simp add: action_step5_deteksi_dan_klasifikasi_def)
    next
      case (Inr dets)
      obtain calls k where dr: "draw_detections_and_classify img dets (1 / 2) = ((img, calls), k)"
        by (simp add: classify_result)
      with a Some True Inr have s': "s' = set_button_states 5
              (s\<lparr>current_image_detection := Some (img, calls), current_step := 5\<rparr>)"
        by (simp add: action_step5_deteksi_dan_klasifikasi_def Let_def)
      from i have p: "processed_current cv s" and h: "hsv_mask_current cv s"
        and m: "morphed_mask_current s"
        by (simp_all add: window_inv_def no_stale_output_def)
      have "no_stale_output cv
              (s\<lparr>current_image_detection := Some (img, calls), current_step := 5\<rparr>)"
        using p h m Some
        by (auto simp: no_stale_iff img_to_process_for_yolo_def split: if_splits)
      then show ?thesis
        unfolding s' by (intro inv_sbs) simp_all
    qed
  qed
qed

lemma morph_of_funs:
  "morph_of MORPH_ERODE = (\<lambda>m. apply_morphology_erode m DEFAULT_KERNEL_SIZE)"
  "morph_of MORPH_DILATE = (\<lambda>m. apply_morphology_dilate m DEFAULT_KERNEL_SIZE)"
  "morph_of MORPH_OPEN = (\<lambda>m. apply_morphology_open m DEFAULT_KERNEL_SIZE)"
  "morph_of MORPH_CLOSE = (\<lambda>m. apply_morphology_close m DEFAULT_KERNEL_SIZE)"
  by (rule ext, simp add: morph_of_def)+

lemma fire_morph: "fire cv (Morph op) s = apply_and_display_morphology (morph_of op) s"
  by (cases op) (simp_all add: morph_of_funs action_morphology_erode_def
      action_morphology_dilate_def action_morphology_opening_def action_morphology_closing_def)

lemma inv_fire:
  assumes i: "window_inv cv s" and en: "enabled e s" and f: "fire cv e s = Inr (r, s')"
  shows "window_inv cv s'"
proof (cases e)
  case (Pilih fn d)
  with en f have "btn_pilih_gambar s" "action_step1_pilih_gambar fn d s = Inr (r, s')"
    by simp_all
  with i show ?thesis by (rule inv_step1)
next
  case Contrast
  with f have "action_step2_perbaiki_kualitas cv s = Inr (r, s')" by simp
  with i show ?thesis by (rule inv_step2)
next
  case Hsv
  with f have "action_step3_hsv_threshold cv s = Inr (r, s')" by simp
  with i show ?thesis by (rule inv_step3)
next
  case (Morph op)
  with en f have "btn_proses_morphology s"
    "apply_and_display_morphology (morph_of op) s = Inr (r, s')"
    by (simp_all only: fire_morph enabled.simps)
  with i show ?thesis by (rule inv_morph)
next
  case (Deteksi d)
  with f have "action_step5_deteksi_dan_klasifikasi d s = Inr (r, s')" by simp
  with i show ?thesis by (rule inv_step5)
next
  case Reset
  with f have "action_step6_reset_aplikasi s = Inr (r, s')" by simp
  then show ?thesis by (rule inv_step6)
qed

lemma reachable_inv: "reachable cv s \<Longrightarrow> window_inv cv s"
proof (induction rule: reachable.induct)
  case (start loaded)
  show ?case by (rule inv_init)
next
  case (click s e r s')
  then show ?case by (blast intro: inv_fire)
qed

lemma count_nonzero_zero: "(\<forall>v \<in> set (concat m). v = 0) \<Longrightarrow> count_nonzero m = 0"
  by (simp add: count_nonzero_def filter_empty_conv)

lemma morph_empty_mask:
  assumes "current_image_hsv_mask s = Some m" and "count_nonzero m = 0"
  shows "apply_and_display_morphology f s = Inr (EmptyMask, s)"
  using assms by (simp add: apply_and_display_morphology_def)

lemma reachable_run: "reachable cv s \<Longrightarrow> run cv es s = Inr s' \<Longrightarrow> reachable cv s'"
proof (induction es arbitrary: s)
  case Nil
  then show ?case by simp
next
  case (Cons e es)
  show ?case
  proof (cases "enabled e s")
    case False
    with Cons show ?thesis by simp
  next
    case True
    show ?thesis
    proof (cases "fire cv e s")
      case (Inl err)
      with True Cons.prems show ?thesis by simp
    next
      case (Inr p)
      obtain r s1 where p: "p = (r, s1)" by (cases p)
      with Inr True Cons.prems have "reachable cv s1" "run cv es s1 = Inr s'"
        by (auto intro: reachable.click)
      then show ?thesis by (rule Cons.IH)
    qed
  qed
qed

lemma step2_clears:
  assumes "action_step2_perbaiki_kualitas cv s = Inr (StepDone, s')"
  shows "current_image_hsv_mask s' = None \<and> current_image_morphed_mask s' = None
       \<and> current_image_detection s' = None"
  using assms
  by (auto simp: action_step2_perbaiki_kualitas_def Let_def
      split: if_splits sum.splits option.splits)

lemma step3_clears:
  assumes "action_step3_hsv_threshold cv s = Inr (StepDone, s')"
  shows "current_image_morphed_mask s' = None \<and> current_image_detection s' = None"
  using assms
  by (auto simp: action_step3_hsv_threshold_def Let_def sbs_fields
      split: if_splits sum.splits option.splits)

text \<open>
  The enabled flags matter. Step 1 overwrites the original image before it knows whether
  the file could be read; called on a state that holds a processed image, with a file that
  cannot be read, it would leave that image without the original it came from. The first
  button is disabled in every such state, so no click leads there.
\<close>

lemma failed_load_when_button_enabled:
  assumes "current_image_processed s = Some p"
    and "action_step1_pilih_gambar (c # f) None s = Inr (r, s')"
  shows "\<not> processed_current cv s'"
  using assms
  by (auto simp: action_step1_pilih_gambar_def processed_current_def sbs_fields
      enhance_contrast_stretching_def)

text \<open>
  C5. When the HSV mask in the state has no set pixel, each of the four morphology
  actions returns normally with the report \<open>EmptyMask\<close> and the state it was given: the
  cached masks, the detection result, the step counter and every other field are
  unchanged.
\<close>

theorem empty_mask_refused:
  assumes m: "current_image_hsv_mask s = Some m" and z: "\<forall>v \<in> set (concat m). v = 0"
  shows "action_morphology_erode s = Inr (EmptyMask, s)
       \<and> action_morphology_dilate s = Inr (EmptyMask, s)
       \<and> action_morphology_opening s = Inr (EmptyMask, s)
       \<and> action_morphology_closing s = Inr (EmptyMask, s)"
proof -
  from z have c: "count_nonzero m = 0" by (rule count_nonzero_zero)
  have "apply_and_display_morphology f s = Inr (EmptyMask, s)" for f
    using m c by (rule morph_empty_mask)
  then show ?thesis
    by (simp only: action_morphology_erode_def action_morphology_dilate_def
        action_morphology_opening_def action_morphology_closing_def)
qed

theorem empty_mask_refused_witness:
  "(let s3 = \<lparr>current_step = 3,
        current_image_original =
          Some (Color [[(20, 10, 100), (0, 0, 0)], [(51, 60, 60), (20, 255, 20)]]),
        current_image_processed =
          Some (Color [[(100, 10, 100), (0, 0, 0)], [(255, 60, 60), (100, 255, 20)]]),
        current_image_hsv_mask = Some [[0, 0], [0, 0]],
        current_image_morphed_mask = None, current_image_detection = None,
        current_image_path = Some ''roti.png'', detection_model = True,
        btn_pilih_gambar = False, btn_proses_contrast = False,
        btn_proses_hsv = False, btn_proses_morphology = False,
        btn_deteksi_jamur = True, btn_reset_aplikasi = True\<rparr>
    in run \<lparr>BGR2YCrCb = (\<lambda>p. p), YCrCb2BGR = (\<lambda>p. p), BGR2HSV = (\<lambda>p. p)\<rparr>
         [Pilih ''roti.png''
            (Some (Color [[(20, 10, 100), (0, 0, 0)], [(51, 60, 60), (20, 255, 20)]])),
          Contrast, Hsv] (init_state True) = Inr s3
       \<and> action_morphology_erode s3 = Inr (EmptyMask, s3)
       \<and> action_morphology_dilate s3 = Inr (EmptyMask, s3)
       \<and> action_morphology_opening s3 = Inr (EmptyMask, s3)
       \<and> action_morphology_closing s3 = Inr (EmptyMask, s3))"
proof -
  let ?s3 = "\<lparr>current_step = 3,
        current_image_original =
          Some (Color [[(20, 10, 100), (0, 0, 0)], [(51, 60, 60), (20, 255, 20)]]),
        current_image_processed =
          Some (Color [[(100, 10, 100), (0, 0, 0)], [(255, 60, 60), (100, 255, 20)]]),
        current_image_hsv_mask = Some [[0, 0], [0, 0]],
        current_image_morphed_mask = None, current_image_detection = None,
        current_image_path = Some ''roti.png'', detection_model = True,
        btn_pilih_gambar = False, btn_proses_contrast = False,
        btn_proses_hsv = False, btn_proses_morphology = False,
        btn_deteksi_jamur = True, btn_reset_aplikasi = True\<rparr>"
  have r: "run \<lparr>BGR2YCrCb = (\<lambda>p. p), YCrCb2BGR = (\<lambda>p. p), BGR2HSV = (\<lambda>p. p)\<rparr>
         [Pilih ''roti.png''
            (Some (Color [[(20, 10, 100), (0, 0, 0)], [(51, 60, 60), (20, 255, 20)]])),
          Contrast, Hsv] (init_state True) = Inr ?s3"
    by code_simp
  have m: "current_image_hsv_mask ?s3 = Some [[0, 0], [0, 0]]" by simp
  have z: "\<forall>v \<in> set (concat [[0, 0], [0, 0 :: uint8]]). v = 0" by simp
  from empty_mask_refused [OF m z] r show ?thesis
    unfolding Let_def by (intro conjI) simp_all
qed

text \<open>
  C6. Whenever step 2 completes, the HSV mask, the morphed mask and the detection result
  of the new state are cleared; whenever step 3 completes, the morphed mask and the
  detection result are cleared; and in every state that clicks on enabled buttons can
  reach from the start, each cached output is the one its stage computes from the
  upstream value now in the state.
\<close>

theorem upstream_rerun_invalidates:
  "(action_step2_perbaiki_kualitas cv s = Inr (StepDone, s2)
      \<longrightarrow> current_image_hsv_mask s2 = None \<and> current_image_morphed_mask s2 = None
          \<and> current_image_detection s2 = None)
   \<and> (action_step3_hsv_threshold cv s = Inr (StepDone, s3)
      \<longrightarrow> current_image_morphed_mask s3 = None \<and> current_image_detection s3 = None)
   \<and> (reachable cv t \<longrightarrow> no_stale_output cv t)"
proof (intro conjI impI)
  assume a: "action_step2_perbaiki_kualitas cv s = Inr (StepDone, s2)"
  from step2_clears [OF a] show "current_image_hsv_mask s2 = None"
    and "current_image_morphed_mask s2 = None" and "current_image_detection s2 = None"
    by simp_all
next
  assume a: "action_step3_hsv_threshold cv s = Inr (StepDone, s3)"
  from step3_clears [OF a] show "current_image_morphed_mask s3 = None"
    and "current_image_detection s3 = None"
    by simp_all
next
  assume "reachable cv t"
  then have "window_inv cv t" by (rule reachable_inv)
  then show "no_stale_output cv t" by (simp add: window_inv_def)
qed

theorem upstream_rerun_invalidates_witness:
  "(let s5 = \<lparr>current_step = 5,
        current_image_original =
          Some (Color [[(20, 100, 100), (0, 0, 0)], [(51, 60, 60), (20, 255, 200)]]),
        current_image_processed =
          Some (Color [[(100, 100, 100), (0, 0, 0)], [(255, 60, 60), (100, 255, 200)]]),
        current_image_hsv_mask = Some [[255, 0], [0, 255]],
        current_image_morphed_mask = Some [[0, 0], [0, 0]],
        current_image_detection =
          Some (Color [[(100, 100, 100), (0, 0, 0)], [(255, 60, 60), (100, 255, 200)]],
                [Rectangle (0, 0) (1, 1) (0, 0, 255) 2,
                 PutText ''mold'' (9 / 10) (0, 15) (0, 0, 255)]),
        current_image_path = Some ''roti.png'', detection_model = True,
        btn_pilih_gambar = False, btn_proses_contrast = False,
        btn_proses_hsv = False, btn_proses_morphology = True,
        btn_deteksi_jamur = True, btn_reset_aplikasi = True\<rparr>
    in run \<lparr>BGR2YCrCb = (\<lambda>p. p), YCrCb2BGR = (\<lambda>p. p), BGR2HSV = (\<lambda>p. p)\<rparr>
         [Pilih ''roti.png''
            (Some (Color [[(20, 100, 100), (0, 0, 0)], [(51, 60, 60), (20, 255, 200)]])),
          Contrast, Hsv, Morph MORPH_ERODE,
          Deteksi (Inr [\<lparr>name = ''mold'', bbox = (0, 0, 1, 1), score = Some (9 / 10)\<rparr>])]
         (init_state True) = Inr s5
       \<and> no_stale_output \<lparr>BGR2YCrCb = (\<lambda>p. p), YCrCb2BGR = (\<lambda>p. p), BGR2HSV = (\<lambda>p. p)\<rparr> s5
       \<and> action_step2_perbaiki_kualitas \<lparr>BGR2YCrCb = (\<lambda>p. p), YCrCb2BGR = (\<lambda>p. p), BGR2HSV = (\<lambda>p. p)\<rparr> s5
           = Inr (StepDone,
                  s5\<lparr>current_step := 2, current_image_hsv_mask := None,
                     current_image_morphed_mask := None, current_image_detection := None,
                     btn_proses_hsv := True, btn_proses_morphology := False\<rparr>)
       \<and> action_step3_hsv_threshold \<lparr>BGR2YCrCb = (\<lambda>p. p), YCrCb2BGR = (\<lambda>p. p), BGR2HSV = (\<lambda>p. p)\<rparr> s5
           = Inr (StepDone,
                  s5\<lparr>current_step := 3, current_image_morphed_mask := None,
                     current_image_detection := None\<rparr>))"
proof -
  let ?s5 = "\<lparr>current_step = 5,
        current_image_original =
          Some (Color [[(20, 100, 100), (0, 0, 0)], [(51, 60, 60), (20, 255, 200)]]),
        current_image_processed =
          Some (Color [[(100, 100, 100), (0, 0, 0)], [(255, 60, 60), (100, 255, 200)]]),
        current_image_hsv_mask = Some [[255, 0], [0, 255]],
        current_image_morphed_mask = Some [[0, 0], [0, 0]],
        current_image_detection =
          Some (Color [[(100, 100, 100), (0, 0, 0)], [(255, 60, 60), (100, 255, 200)]],
                [Rectangle (0, 0) (1, 1) (0, 0, 255) 2,
                 PutText ''mold'' (9 / 10) (0, 15) (0, 0, 255)]),
        current_image_path = Some ''roti.png'', detection_model = True,
        btn_pilih_gambar = False, btn_proses_contrast = False,
        btn_proses_hsv = False, btn_proses_morphology = True,
        btn_deteksi_jamur = True, btn_reset_aplikasi = True\<rparr>"
  have r: "run \<lparr>BGR2YCrCb = (\<lambda>p. p), YCrCb2BGR = (\<lambda>p. p), BGR2HSV = (\<lambda>p. p)\<rparr>
         [Pilih ''roti.png''
            (Some (Color [[(20, 100, 100), (0, 0, 0)], [(51, 60, 60), (20, 255, 200)]])),
          Contrast, Hsv, Morph MORPH_ERODE,
          Deteksi (Inr [\<lparr>name = ''mold'', bbox = (0, 0, 1, 1), score = Some (9 / 10)\<rparr>])]
         (init_state True) = Inr ?s5"
    by code_simp
  have "reachable \<lparr>BGR2YCrCb = (\<lambda>p. p), YCrCb2BGR = (\<lambda>p. p), BGR2HSV = (\<lambda>p. p)\<rparr> ?s5"
    by (rule reachable_run [OF reachable.start r])
  with upstream_rerun_invalidates [of "\<lparr>BGR2YCrCb = (\<lambda>p. p), YCrCb2BGR = (\<lambda>p. p), BGR2HSV = (\<lambda>p. p)\<rparr>" ?s5 ?s5 ?s5 ?s5]
  have n: "no_stale_output \<lparr>BGR2YCrCb = (\<lambda>p. p), YCrCb2BGR = (\<lambda>p. p), BGR2HSV = (\<lambda>p. p)\<rparr> ?s5" by blast
  have a2: "action_step2_perbaiki_kualitas \<lparr>BGR2YCrCb = (\<lambda>p. p), YCrCb2BGR = (\<lambda>p. p), BGR2HSV = (\<lambda>p. p)\<rparr> ?s5
           = Inr (StepDone,
                  ?s5\<lparr>current_step := 2, current_image_hsv_mask := None,
                     current_image_morphed_mask := None, current_image_detection := None,
                     btn_proses_hsv := True, btn_proses_morphology := False\<rparr>)"
    by code_simp
  have a3: "action_step3_hsv_threshold \<lparr>BGR2YCrCb = (\<lambda>p. p), YCrCb2BGR = (\<lambda>p. p), BGR2HSV = (\<lambda>p. p)\<rparr> ?s5
           = Inr (StepDone,
                  ?s5\<lparr>current_step := 3, current_image_morphed_mask := None,
                     current_image_detection := None\<rparr>)"
    by code_simp
  from r n a2 a3 show ?thesis
    unfolding Let_def by (intro conjI)
qed

end
